theory Spec2Isabelle
  imports Main "HOL-Library.List_Lexorder" "HOL-Library.Char_ord"
begin

section \<open>Python values and exceptions\<close>

text \<open>
  The exceptions that the modelled code of \<^verbatim>\<open>fuzzy_load.py\<close> can raise. A function
  that may raise returns \<open>error + 'a\<close>, with \<open>Inl\<close> for the exception.
\<close>

datatype error = TypeError | IndexError | KeyError | AttributeError

definition bindE :: "error + 'a \<Rightarrow> ('a \<Rightarrow> error + 'b) \<Rightarrow> error + 'b" where
  "bindE m f = (case m of Inl e \<Rightarrow> Inl e | Inr v \<Rightarrow> f v)"

text \<open>
  Evaluating a list of computations from left to right stops at the first exception, as
  \<^verbatim>\<open>Series.apply\<close> does when the applied function raises.
\<close>

fun traverse :: "('a \<Rightarrow> error + 'b) \<Rightarrow> 'a list \<Rightarrow> error + 'b list" where
  "traverse f [] = Inr []"
| "traverse f (x # xs) =
     (case f x of
        Inl e \<Rightarrow> Inl e
      | Inr y \<Rightarrow> (case traverse f xs of Inl e \<Rightarrow> Inl e | Inr ys \<Rightarrow> Inr (y # ys)))"

text \<open>
  \<^verbatim>\<open>s.split(sep)\<close> with an explicit one-character separator: the string is cut at
  every occurrence of the separator, adjacent separators give empty tokens, and the
  result always has at least one token.
\<close>

fun str_split :: "char \<Rightarrow> string \<Rightarrow> string list" where
  "str_split sep [] = [[]]"
| "str_split sep (c # cs) =
     (if c = sep then [] # str_split sep cs
      else (case str_split sep cs of [] \<Rightarrow> [[c]] | t # ts \<Rightarrow> (c # t) # ts))"

text \<open>\<^verbatim>\<open>xs[i]\<close> for a non-negative index: out of range raises IndexError.\<close>

definition item :: "'a list \<Rightarrow> nat \<Rightarrow> error + 'a" where
  "item xs i = (if i < length xs then Inr (xs ! i) else Inl IndexError)"

text \<open>
  A cell of a DataFrame or of a row Series: a missing value (\<^verbatim>\<open>None\<close>/\<^verbatim>\<open>NaN\<close>),
  a string or an integer. A row (\<^verbatim>\<open>pd.Series\<close> indexed by column label) is a dictionary
  from labels to cells.
\<close>

datatype cell = NaN | Str string | Num int

type_synonym row = "string \<rightharpoonup> cell"

text \<open>\<^verbatim>\<open>row[key]\<close>: a missing label raises KeyError.\<close>

definition getitem :: "row \<Rightarrow> string \<Rightarrow> error + cell" where
  "getitem r key = (case r key of None \<Rightarrow> Inl KeyError | Some v \<Rightarrow> Inr v)"

text \<open>
  \<^verbatim>\<open>a > b\<close> on cells: integers by value, strings lexicographically by code point,
  any comparison with NaN among numbers is false, and a string against a number raises
  TypeError.
\<close>

fun gt :: "cell \<Rightarrow> cell \<Rightarrow> error + bool" where
  "gt (Num a) (Num b) = Inr (b < a)"
| "gt (Str a) (Str b) = Inr (b < a)"
| "gt NaN (Num b) = Inr False"
| "gt (Num a) NaN = Inr False"
| "gt NaN NaN = Inr False"
| "gt (Str a) NaN = Inl TypeError"
| "gt (Str a) (Num b) = Inl TypeError"
| "gt NaN (Str b) = Inl TypeError"
| "gt (Num a) (Str b) = Inl TypeError"

text \<open>\<^verbatim>\<open>name.split(' ')\<close> on a cell: only a string has the method.\<close>

fun split_cell :: "cell \<Rightarrow> error + string list" where
  "split_cell (Str s) = Inr (str_split CHR '' '' s)"
| "split_cell NaN = Inl AttributeError"
| "split_cell (Num n) = Inl AttributeError"

section \<open>The fuzzy matching library\<close>

text \<open>
  \<^verbatim>\<open>fuzz.token_set_ratio\<close> of thefuzz, together with the processing that
  \<^verbatim>\<open>process.extractOne\<close> applies to the query and to each choice, is a parameter of
  the model: a function from the query and a choice to an integer score.
\<close>

type_synonym scorer = "string \<Rightarrow> string \<Rightarrow> int"

text \<open>
  \<^verbatim>\<open>process.extractOne(query, choices, scorer=sc, score_cutoff=cutoff)\<close>: every choice
  is scored against the query, the choices whose score is below the cutoff are left out,
  and the first choice with the greatest score is returned with its score; \<^verbatim>\<open>None\<close>
  when no choice is left (in particular when there is no choice at all).
\<close>

definition extractWithoutOrder ::
  "scorer \<Rightarrow> string \<Rightarrow> string list \<Rightarrow> int \<Rightarrow> (string \<times> int) list" where
  "extractWithoutOrder sc query choices score_cutoff =
     filter (\<lambda>m. score_cutoff \<le> snd m) (map (\<lambda>c. (c, sc query c)) choices)"

fun first_max :: "(string \<times> int) \<Rightarrow> (string \<times> int) list \<Rightarrow> string \<times> int" where
  "first_max best [] = best"
| "first_max best (m # ms) = first_max (if snd best < snd m then m else best) ms"

definition extractOne ::
  "scorer \<Rightarrow> string \<Rightarrow> string list \<Rightarrow> int \<Rightarrow> (string \<times> int) option" where
  "extractOne sc query choices score_cutoff =
     (case extractWithoutOrder sc query choices score_cutoff of
        [] \<Rightarrow> None
      | m # ms \<Rightarrow> Some (first_max m ms))"

section \<open>The resolver entry points\<close>

text \<open>
  \<^verbatim>\<open>get_best_score(name, choices)\<close>: the result of \<^verbatim>\<open>extractOne\<close> (default cutoff 0)
  is unpacked into \<^verbatim>\<open>best, score\<close>; unpacking \<^verbatim>\<open>None\<close> raises TypeError.
\<close>

definition get_best_score :: "scorer \<Rightarrow> string \<Rightarrow> string list \<Rightarrow> error + int" where
  "get_best_score sc name choices =
     (case extractOne sc name choices 0 of
        None \<Rightarrow> Inl TypeError
      | Some (best, score) \<Rightarrow> Inr score)"

text \<open>
  \<^verbatim>\<open>extract_best(name, choices, threshold)\<close>: the threshold is the cutoff; the match is
  returned without its score, and \<^verbatim>\<open>None\<close> is returned when there is no result.
\<close>

definition extract_best ::
  "scorer \<Rightarrow> string \<Rightarrow> string list \<Rightarrow> int \<Rightarrow> error + string option" where
  "extract_best sc name choices threshold =
     (case extractOne sc name choices threshold of
        Some result \<Rightarrow> Inr (Some (fst result))
      | None \<Rightarrow> Inr None)"

section \<open>The disambiguator\<close>

text \<open>\<^verbatim>\<open>row[a] > row[b]\<close> and \<^verbatim>\<open>row[key].split(' ')[i]\<close>, evaluated left to right.\<close>

definition greater :: "row \<Rightarrow> string \<Rightarrow> string \<Rightarrow> error + bool" where
  "greater r a b = bindE (getitem r a) (\<lambda>x. bindE (getitem r b) (\<lambda>y. gt x y))"

definition token :: "row \<Rightarrow> string \<Rightarrow> nat \<Rightarrow> error + string" where
  "token r key i = bindE (getitem r key) (\<lambda>name. bindE (split_cell name) (\<lambda>ts. item ts i))"

definition select_best_full_name :: "row \<Rightarrow> error + string" where
  "select_best_full_name r =
     bindE
       (bindE (greater r ''score_1'' ''score_2'') (\<lambda>first_1.
          if first_1 then token r ''customer_name_1'' 0
          else bindE (greater r ''score_2'' ''score_1'') (\<lambda>first_2.
            if first_2 then token r ''customer_name_2'' 0
            else token r ''customer_name_1'' 0)))
       (\<lambda>best_first.
     bindE
       (bindE (greater r ''score_last_1'' ''score_last_2'') (\<lambda>last_1.
          if last_1 then token r ''customer_name_1'' 1
          else bindE (greater r ''score_last_2'' ''score_last_1'') (\<lambda>last_2.
            if last_2 then token r ''customer_name_2'' 1
            else token r ''customer_name_1'' 1)))
       (\<lambda>best_last.
     Inr (best_first @ '' '' @ best_last)))"

section \<open>DataFrames\<close>

text \<open>
  A DataFrame is its list of column labels and its rows, each row a dictionary from the
  labels to cells. The model covers frames whose labels are distinct.
\<close>

record frame =
  columns :: "string list"
  rows :: "row list"

text \<open>\<^verbatim>\<open>df[label]\<close>: the cells of a column, KeyError for an unknown label.\<close>

definition column :: "frame \<Rightarrow> string \<Rightarrow> error + cell list" where
  "column df label =
     (if label \<in> set (columns df) then traverse (\<lambda>r. getitem r label) (rows df)
      else Inl KeyError)"

text \<open>
  \<^verbatim>\<open>df[label] = values\<close>, with one value per row: an existing column is overwritten in
  place, a new one is appended.
\<close>

definition assign :: "frame \<Rightarrow> string \<Rightarrow> cell list \<Rightarrow> frame" where
  "assign df label vs =
     \<lparr>columns = (if label \<in> set (columns df) then columns df else columns df @ [label]),
      rows = map2 (\<lambda>r v. r(label \<mapsto> v)) (rows df) vs\<rparr>"

text \<open>
  A row under new labels: the cell under the new label \<open>f c\<close> is the cell the row had
  under \<open>c\<close>.
\<close>

definition relabel :: "(string \<Rightarrow> string) \<Rightarrow> string list \<Rightarrow> row \<Rightarrow> row" where
  "relabel f labels r =
     (\<lambda>k. case find (\<lambda>c. f c = k) labels of None \<Rightarrow> None | Some c \<Rightarrow> r c)"

text \<open>
  \<^verbatim>\<open>pd.merge(left, right, left_on=..., right_on=..., how='left', suffixes=(sl, sr))\<close>
  with two different key columns. A label that both frames have gets the suffix of its
  side. Every left row is kept, in order: it is paired with each right row whose key cell
  equals its own (missing keys match each other), in the order of the right frame, and
  with a row of missing values when there is none.
\<close>

definition suffixed :: "string list \<Rightarrow> string \<Rightarrow> string \<Rightarrow> string" where
  "suffixed other suffix label = (if label \<in> set other then label @ suffix else label)"

definition missing_row :: "string list \<Rightarrow> row" where
  "missing_row labels = (\<lambda>k. if k \<in> set labels then Some NaN else None)"

definition merge_row ::
  "string list \<Rightarrow> string list \<Rightarrow> string \<Rightarrow> string \<Rightarrow> row \<Rightarrow> row \<Rightarrow> row" where
  "merge_row lcols rcols sl sr l r =
     relabel (suffixed rcols sl) lcols l ++ relabel (suffixed lcols sr) rcols r"

definition merge_left ::
  "frame \<Rightarrow> frame \<Rightarrow> string \<Rightarrow> string \<Rightarrow> string \<Rightarrow> string \<Rightarrow> error + frame" where
  "merge_left left right left_on right_on sl sr =
     (if left_on \<notin> set (columns left) \<or> right_on \<notin> set (columns right) then Inl KeyError
      else Inr
        \<lparr>columns = map (suffixed (columns right) sl) (columns left)
                   @ map (suffixed (columns left) sr) (columns right),
         rows = concat (map (\<lambda>l.
                  case filter (\<lambda>r. r right_on = l left_on) (rows right) of
                    [] \<Rightarrow> [merge_row (columns left) (columns right) sl sr l
                            (missing_row (columns right))]
                  | m # ms \<Rightarrow> map (merge_row (columns left) (columns right) sl sr l) (m # ms))
                (rows left))\<rparr>)"

text \<open>\<^verbatim>\<open>df.fillna(value)\<close>: every missing cell becomes the value.\<close>

definition fillna :: "frame \<Rightarrow> cell \<Rightarrow> frame" where
  "fillna df v =
     \<lparr>columns = columns df,
      rows = map (\<lambda>r k. map_option (\<lambda>c. if c = NaN then v else c) (r k)) (rows df)\<rparr>"

text \<open>\<^verbatim>\<open>df.drop(columns=labels)\<close>: KeyError when a label is not a column.\<close>

definition drop_columns :: "frame \<Rightarrow> string list \<Rightarrow> error + frame" where
  "drop_columns df labels =
     (if list_all (\<lambda>l. l \<in> set (columns df)) labels
      then Inr \<lparr>columns = filter (\<lambda>c. c \<notin> set labels) (columns df),
                rows = map (\<lambda>r. r |` (- set labels)) (rows df)\<rparr>
      else Inl KeyError)"

text \<open>
  \<^verbatim>\<open>str.upper\<close> on the ASCII letters (the labels of the tables are ASCII), and
  \<^verbatim>\<open>df.columns = [f(c) for c in df.columns]\<close>.
\<close>

definition upper_char :: "char \<Rightarrow> char" where
  "upper_char c =
     (case map_of (zip ''abcdefghijklmnopqrstuvwxyz'' ''ABCDEFGHIJKLMNOPQRSTUVWXYZ'') c of
        None \<Rightarrow> c
      | Some u \<Rightarrow> u)"

definition str_upper :: "string \<Rightarrow> string" where
  "str_upper s = map upper_char s"

definition rename_columns :: "(string \<Rightarrow> string) \<Rightarrow> frame \<Rightarrow> frame" where
  "rename_columns f df =
     \<lparr>columns = map f (columns df), rows = map (relabel f (columns df)) (rows df)\<rparr>"

section \<open>The pipeline of \<^verbatim>\<open>main\<close>\<close>

text \<open>
  The reference tables of the \<^verbatim>\<open>names\<close> package, as the lists of their
  \<^verbatim>\<open>name\<close> columns: \<^verbatim>\<open>reference_names['first:female']\<close>,
  \<^verbatim>\<open>reference_names['first:male']\<close> and \<^verbatim>\<open>reference_names['last']\<close>.
\<close>

record reference_names =
  first_female :: "string list"
  first_male :: "string list"
  last_names :: "string list"

text \<open>
  The resolver takes strings (\<^verbatim>\<open>name: str\<close>, \<^verbatim>\<open>choices: list[str]\<close>). A name
  cell that is not a string is outside what the model of the library covers; the model
  stops there with TypeError.
\<close>

fun as_name :: "cell \<Rightarrow> error + string" where
  "as_name (Str s) = Inr s"
| "as_name NaN = Inl TypeError"
| "as_name (Num n) = Inl TypeError"

fun cell_of :: "string option \<Rightarrow> cell" where
  "cell_of None = NaN"
| "cell_of (Some s) = Str s"

text \<open>
  Lines 185 to 196: the customer names are the choices, every transaction name is
  resolved with the default threshold 75 into the column \<^verbatim>\<open>external_name\<close>, and the
  transactions are left-joined to the customers on it.
\<close>

definition merge_step :: "scorer \<Rightarrow> frame \<Rightarrow> frame \<Rightarrow> error + frame" where
  "merge_step sc transactions customers =
     bindE (column customers ''customer_name'') (\<lambda>customers_names.
     bindE (column transactions ''customer_name'') (\<lambda>names.
     bindE (traverse (\<lambda>name.
              bindE (as_name name) (\<lambda>n.
              bindE (traverse as_name customers_names) (\<lambda>choices.
              bindE (extract_best sc n choices 75) (\<lambda>best. Inr (cell_of best)))))
            names) (\<lambda>external_name.
     merge_left (assign transactions ''external_name'' external_name) customers
       ''external_name'' ''customer_name'' ''_1'' ''_2'')))"

text \<open>Lines 198 and 199: the merged frame with every missing value turned into " ".\<close>

definition merged_df :: "scorer \<Rightarrow> frame \<Rightarrow> frame \<Rightarrow> error + frame" where
  "merged_df sc transactions customers =
     bindE (merge_step sc transactions customers) (\<lambda>df. Inr (fillna df (Str '' '')))"

text \<open>
  \<^verbatim>\<open>df[label].apply(lambda name: get_best_score(name.split(' ')[i], choices))\<close>,
  the scoring of lines 205 to 208.
\<close>

definition score_column ::
  "scorer \<Rightarrow> frame \<Rightarrow> string \<Rightarrow> nat \<Rightarrow> string list \<Rightarrow> error + cell list" where
  "score_column sc df label i choices =
     bindE (column df label) (\<lambda>names.
     traverse (\<lambda>name.
       bindE (split_cell name) (\<lambda>ts.
       bindE (item ts i) (\<lambda>t.
       bindE (get_best_score sc t choices) (\<lambda>s. Inr (Num s))))) names)"

text \<open>
  Lines 202 to 213 of \<^verbatim>\<open>main\<close>, from the filled frame to the frame that is handed to
  \<^verbatim>\<open>write_pandas\<close>.
\<close>

definition resolve :: "scorer \<Rightarrow> reference_names \<Rightarrow> frame \<Rightarrow> error + frame" where
  "resolve sc reference df0 =
     bindE (drop_columns df0 [''external_name'']) (\<lambda>df1.
     bindE (score_column sc df1 ''customer_name_1'' 0
              (first_female reference @ first_male reference)) (\<lambda>score_1.
     let df2 = assign df1 ''score_1'' score_1 in
     bindE (score_column sc df2 ''customer_name_2'' 0
              (first_female reference @ first_male reference)) (\<lambda>score_2.
     let df3 = assign df2 ''score_2'' score_2 in
     bindE (score_column sc df3 ''customer_name_1'' 1 (last_names reference)) (\<lambda>score_last_1.
     let df4 = assign df3 ''score_last_1'' score_last_1 in
     bindE (score_column sc df4 ''customer_name_2'' 1 (last_names reference)) (\<lambda>score_last_2.
     let df5 = assign df4 ''score_last_2'' score_last_2 in
     bindE (traverse select_best_full_name (rows df5)) (\<lambda>customer_name.
     let df6 = assign df5 ''customer_name'' (map Str customer_name) in
     bindE (drop_columns df6 [''customer_name_1'', ''customer_name_2'', ''score_1'',
              ''score_2'', ''score_last_1'', ''score_last_2'']) (\<lambda>df7.
     Inr (rename_columns str_upper df7))))))))"

definition main :: "scorer \<Rightarrow> reference_names \<Rightarrow> frame \<Rightarrow> frame \<Rightarrow> error + frame" where
  "main sc reference transactions customers =
     bindE (merged_df sc transactions customers) (resolve sc reference)"

section \<open>Properties of the library model\<close>

lemma first_max_mem: "first_max b ms \<in> set (b # ms)"
  by (induction ms arbitrary: b) auto

lemma first_max_ge: "m \<in> set (b # ms) \<Longrightarrow> snd m \<le> snd (first_max b ms)"
proof (induction ms arbitrary: b m)
  case Nil
  then show ?case by simp
next
  case (Cons a ms)
  let ?b' = "if snd b < snd a then a else b"
  have keep: "snd ?b' \<le> snd (first_max ?b' ms)"
    by (rule Cons.IH) simp
  show ?case
  proof (cases "m \<in> set ms")
    case True
    then show ?thesis using Cons.IH [of m ?b'] by simp
  next
    case False
    then have "m = b \<or> m = a" using Cons.prems by auto
    then have "snd m \<le> snd ?b'" by auto
    then show ?thesis using keep by simp
  qed
qed

lemma extractOne_None:
  "extractOne sc q cs t = None \<longleftrightarrow> (\<forall>c\<in>set cs. sc q c < t)"
proof -
  have "extractOne sc q cs t = None \<longleftrightarrow> extractWithoutOrder sc q cs t = []"
    by (simp add: extractOne_def split: list.splits)
  also have "\<dots> \<longleftrightarrow> (\<forall>c\<in>set cs. sc q c < t)"
    by (auto simp: extractWithoutOrder_def filter_empty_conv)
  finally show ?thesis .
qed

lemma extractOne_Some:
  assumes "extractOne sc q cs t = Some (c, s)"
  shows "c \<in> set cs \<and> s = sc q c \<and> t \<le> s \<and> (\<forall>d\<in>set cs. sc q d \<le> s)"
proof -
  let ?ms = "extractWithoutOrder sc q cs t"
  obtain m ms where ms: "?ms = m # ms" and r: "(c, s) = first_max m ms"
    using assms by (auto simp: extractOne_def split: list.splits)
  have mem: "(c, s) \<in> set ?ms" using first_max_mem [of m ms] ms r by simp
  then have a: "c \<in> set cs" "s = sc q c" "t \<le> s"
    by (auto simp: extractWithoutOrder_def)
  have "sc q d \<le> s" if d: "d \<in> set cs" for d
  proof (cases "t \<le> sc q d")
    case True
    then have "(d, sc q d) \<in> set (m # ms)"
      using d ms [symmetric] by (auto simp: extractWithoutOrder_def)
    from first_max_ge [OF this] show ?thesis using r [symmetric] by simp
  next
    case False
    then show ?thesis using a by simp
  qed
  then show ?thesis using a by blast
qed

lemma bindE_Inr: "bindE m f = Inr y \<longleftrightarrow> (\<exists>v. m = Inr v \<and> f v = Inr y)"
  by (cases m) (auto simp: bindE_def)

lemma traverse_Inr: "traverse f xs = Inr ys \<longleftrightarrow> map f xs = map Inr ys"
proof (induction xs arbitrary: ys)
  case Nil
  then show ?case by auto
next
  case (Cons x xs)
  show ?case
  proof (cases "traverse f xs")
    case (Inl e)
    then have "\<And>zs. map f xs \<noteq> map Inr zs" using Cons.IH by auto
    then show ?thesis using Inl by (cases ys) (auto split: sum.splits)
  next
    case (Inr zs)
    then have "map f xs = map Inr zs" using Cons.IH by simp
    then show ?thesis using Inr by (cases ys) (auto split: sum.splits simp: inj_map_eq_map)
  qed
qed

lemma traverse_length: "traverse f xs = Inr ys \<Longrightarrow> length ys = length xs"
  unfolding traverse_Inr by (drule arg_cong [where f = length]) simp

lemma traverse_nth:
  assumes "traverse f xs = Inr ys" and "i < length xs"
  shows "f (xs ! i) = Inr (ys ! i)"
proof -
  have "map f xs ! i = map Inr ys ! i" using assms(1) by (simp add: traverse_Inr)
  then show ?thesis using assms traverse_length [OF assms(1)] by simp
qed

section \<open>The resolver\<close>

text \<open>
  Claim C1. For a non-empty list of choices, \<open>extract_best\<close> returns a choice whose
  score is the greatest score of the list when that greatest score is at least the
  threshold (a score equal to the threshold is accepted), and returns \<^verbatim>\<open>None\<close> when
  the greatest score is below the threshold.
\<close>

theorem extract_best_threshold:
  assumes "choices \<noteq> []"
  shows "if threshold \<le> Max (sc name ` set choices)
         then \<exists>c. extract_best sc name choices threshold = Inr (Some c) \<and> c \<in> set choices
                \<and> sc name c = Max (sc name ` set choices)
         else extract_best sc name choices threshold = Inr None"
proof (cases "extractOne sc name choices threshold")
  case None
  then have lt: "\<forall>c\<in>set choices. sc name c < threshold" by (simp add: extractOne_None)
  have "Max (sc name ` set choices) < threshold"
    using assms lt by (subst Max_less_iff) auto
  then show ?thesis using None by (simp add: extract_best_def)
next
  case (Some r)
  obtain c s where r: "r = (c, s)" by (cases r)
  note p = extractOne_Some [OF Some [unfolded r]]
  have "Max (sc name ` set choices) = sc name c"
    using p by (intro Max_eqI) auto
  then show ?thesis using Some r p by (auto simp: extract_best_def)
qed

theorem extract_best_threshold_witness:
  "extract_best (\<lambda>q c. if c = ''Jonathan Doe'' then 75 else 40) ''Jon Doe''
     [''Alice Smith'', ''Jonathan Doe''] 75 = Inr (Some ''Jonathan Doe'')
   \<and> extract_best (\<lambda>q c. if c = ''Jonathan Doe'' then 75 else 40) ''Jon Doe''
     [''Alice Smith'', ''Jonathan Doe''] 76 = Inr None"
  using extract_best_threshold [of "[''Alice Smith'', ''Jonathan Doe'']" 75
     "\<lambda>q c. if c = ''Jonathan Doe'' then 75 else 40" "''Jon Doe''"]
    extract_best_threshold [of "[''Alice Smith'', ''Jonathan Doe'']" 76
     "\<lambda>q c. if c = ''Jonathan Doe'' then 75 else 40" "''Jon Doe''"]
  by (simp add: extract_best_def extractOne_def extractWithoutOrder_def)




text \<open>
  Claim C3, as the code has it. On an empty list of choices \<open>get_best_score\<close> raises
  (TypeError, from unpacking \<^verbatim>\<open>None\<close>), and \<open>extract_best\<close> returns \<^verbatim>\<open>None\<close>
  without raising.
\<close>

theorem empty_choices: 
  "get_best_score sc name [] = Inl TypeError \<and> extract_best sc name [] threshold = Inr None"
  by (simp add: get_best_score_def extract_best_def extractOne_def extractWithoutOrder_def)

text \<open>
  The claim that both entry points raise on an empty list fails for \<open>extract_best\<close>.
\<close>

theorem extract_best_empty_counterexample:
  "extract_best (\<lambda>q c. 0) ''Jon Doe'' [] 75 = Inr None"
  by (simp add: extract_best_def extractOne_def extractWithoutOrder_def)

section \<open>The disambiguator\<close>

lemma str_split_nonempty: "str_split sep s \<noteq> []"
  by (induction s) (auto split: list.splits)

lemma str_split_length: "length (str_split sep s) = Suc (count_list s sep)"
  by (induction s) (auto split: list.splits simp: str_split_nonempty)

lemma str_split_single: "str_split sep s = [t] \<Longrightarrow> s = t"
  by (induction s arbitrary: t) (auto split: list.splits if_splits simp: str_split_nonempty)

lemma str_split_two: "str_split sep s = [f, l] \<Longrightarrow> s = f @ sep # l"
proof (induction s arbitrary: f)
  case Nil
  then show ?case by simp
next
  case (Cons c cs)
  show ?case
  proof (cases "c = sep")
    case True
    then have "f = []" "str_split sep cs = [l]" using Cons.prems by auto
    then show ?thesis using True str_split_single [of sep cs l] by simp
  next
    case False
    then show ?thesis using Cons by (auto split: list.splits)
  qed
qed

lemma str_split_has_sep: "2 \<le> length (str_split sep s) \<longleftrightarrow> sep \<in> set s"
  by (induction s) (auto split: list.splits simp: str_split_nonempty Suc_le_eq)

lemma item_0_split: "item (str_split sep s) 0 = Inr (hd (str_split sep s))"
  using str_split_nonempty [of sep s] by (cases "str_split sep s") (auto simp: item_def)

lemma item_1_split:
  "item (str_split sep s) (Suc 0) =
     (if sep \<in> set s then Inr (str_split sep s ! 1) else Inl IndexError)"
  using str_split_has_sep [of sep s] by (auto simp: item_def)

lemma greater_Num:
  "r a = Some (Num x) \<Longrightarrow> r b = Some (Num y) \<Longrightarrow> greater r a b = Inr (y < x)"
  by (simp add: greater_def getitem_def bindE_def)

lemma token_Str:
  "r k = Some (Str n) \<Longrightarrow> token r k i = item (str_split CHR '' '' n) i"
  by (simp add: token_def getitem_def bindE_def)

lemma select_best_full_name_eq:
  assumes "r ''score_1'' = Some (Num s1)" and "r ''score_2'' = Some (Num s2)"
    and "r ''score_last_1'' = Some (Num l1)" and "r ''score_last_2'' = Some (Num l2)"
    and "r ''customer_name_1'' = Some (Str n1)" and "r ''customer_name_2'' = Some (Str n2)"
  shows "select_best_full_name r =
           bindE (item (str_split CHR '' '' (if l1 < l2 then n2 else n1)) 1) (\<lambda>best_last.
             Inr (hd (str_split CHR '' '' (if s1 < s2 then n2 else n1)) @ '' '' @ best_last))"
  using assms
  by (simp add: select_best_full_name_def greater_Num token_Str item_0_split bindE_def)

text \<open>
  Claim C5, as the code has it. When the two first-name scores are equal and the two
  last-name scores are equal, \<open>select_best_full_name\<close> returns the first token of
  \<^verbatim>\<open>customer_name_1\<close>, a space and its second token (IndexError when there is no
  second token); this is \<^verbatim>\<open>customer_name_1\<close> itself when the name contains exactly
  one space.
\<close>

theorem tie_prefers_name_1:
  assumes "r ''score_1'' = Some (Num a)" and "r ''score_2'' = Some (Num a)"
    and "r ''score_last_1'' = Some (Num b)" and "r ''score_last_2'' = Some (Num b)"
    and "r ''customer_name_1'' = Some (Str n)"
  shows "select_best_full_name r =
           bindE (item (str_split CHR '' '' n) 1) (\<lambda>best_last.
             Inr (hd (str_split CHR '' '' n) @ '' '' @ best_last))
         \<and> (count_list n CHR '' '' = 1 \<longrightarrow> select_best_full_name r = Inr n)"
proof -
  have eq: "select_best_full_name r =
           bindE (item (str_split CHR '' '' n) 1) (\<lambda>best_last.
             Inr (hd (str_split CHR '' '' n) @ '' '' @ best_last))"
    using assms
    by (simp add: select_best_full_name_def greater_Num token_Str item_0_split bindE_def)
  have "select_best_full_name r = Inr n" if one: "count_list n CHR '' '' = 1"
  proof -
    have "length (str_split CHR '' '' n) = 2"
      using one by (simp add: str_split_length)
    then obtain f l where fl: "str_split CHR '' '' n = [f, l]"
      by (auto simp: length_Suc_conv numeral_2_eq_2)
    from str_split_two [OF fl] show ?thesis
      using eq fl by (simp add: item_def bindE_def)
  qed
  then show ?thesis using eq by blast
qed

theorem tie_prefers_name_1_witness:
  "select_best_full_name
     [''customer_name_1'' \<mapsto> Str ''Jon Doe'', ''customer_name_2'' \<mapsto> Str ''Jonathan Doe'',
      ''score_1'' \<mapsto> Num 90, ''score_2'' \<mapsto> Num 90,
      ''score_last_1'' \<mapsto> Num 100, ''score_last_2'' \<mapsto> Num 100] = Inr ''Jon Doe''"
  using tie_prefers_name_1 [of
     "[''customer_name_1'' \<mapsto> Str ''Jon Doe'', ''customer_name_2'' \<mapsto> Str ''Jonathan Doe'',
      ''score_1'' \<mapsto> Num 90, ''score_2'' \<mapsto> Num 90,
      ''score_last_1'' \<mapsto> Num 100, ''score_last_2'' \<mapsto> Num 100]" 90 100 "''Jon Doe''"]
  by (simp add: item_def bindE_def)

text \<open>
  With a name of three tokens the result of a tie is not the name itself: the third token
  is lost.
\<close>

theorem tie_three_tokens_counterexample:
  "select_best_full_name
     [''customer_name_1'' \<mapsto> Str ''Mary Ann Smith'', ''customer_name_2'' \<mapsto> Str ''Mary Smith'',
      ''score_1'' \<mapsto> Num 100, ''score_2'' \<mapsto> Num 100,
      ''score_last_1'' \<mapsto> Num 100, ''score_last_2'' \<mapsto> Num 100] = Inr ''Mary Ann''"
  by (simp add: select_best_full_name_def greater_def token_def getitem_def bindE_def item_def)

text \<open>
  Claim C6. The first token of the result comes from \<^verbatim>\<open>customer_name_2\<close> exactly when
  \<^verbatim>\<open>score_2\<close> is strictly greater than \<^verbatim>\<open>score_1\<close>, the last token comes from
  \<^verbatim>\<open>customer_name_2\<close> exactly when \<^verbatim>\<open>score_last_2\<close> is strictly greater than
  \<^verbatim>\<open>score_last_1\<close>, the two choices do not depend on each other, and the result is
  the first token, a space and the last token. In particular, when name 1 wins on the
  first name and name 2 wins on the last name, the result is the first token of name 1
  and the second token of name 2.
\<close>

theorem independent_token_selection:
  assumes "r ''score_1'' = Some (Num s1)" and "r ''score_2'' = Some (Num s2)"
    and "r ''score_last_1'' = Some (Num l1)" and "r ''score_last_2'' = Some (Num l2)"
    and "r ''customer_name_1'' = Some (Str n1)" and "r ''customer_name_2'' = Some (Str n2)"
  shows "select_best_full_name r =
           bindE (item (str_split CHR '' '' (if l1 < l2 then n2 else n1)) 1) (\<lambda>best_last.
             Inr (hd (str_split CHR '' '' (if s1 < s2 then n2 else n1)) @ '' '' @ best_last))
         \<and> (s2 < s1 \<and> l1 < l2 \<longrightarrow>
              select_best_full_name r =
                bindE (item (str_split CHR '' '' n2) 1) (\<lambda>best_last.
                  Inr (hd (str_split CHR '' '' n1) @ '' '' @ best_last)))"
  using select_best_full_name_eq [OF assms] by simp

theorem independent_token_selection_witness:
  "select_best_full_name
     [''customer_name_1'' \<mapsto> Str ''John Smxth'', ''customer_name_2'' \<mapsto> Str ''Jon Smyth'',
      ''score_1'' \<mapsto> Num 100, ''score_2'' \<mapsto> Num 86,
      ''score_last_1'' \<mapsto> Num 60, ''score_last_2'' \<mapsto> Num 91] = Inr ''John Smyth''"
  using independent_token_selection [of
     "[''customer_name_1'' \<mapsto> Str ''John Smxth'', ''customer_name_2'' \<mapsto> Str ''Jon Smyth'',
      ''score_1'' \<mapsto> Num 100, ''score_2'' \<mapsto> Num 86,
      ''score_last_1'' \<mapsto> Num 60, ''score_last_2'' \<mapsto> Num 91]" 100 86 60 91
      "''John Smxth''" "''Jon Smyth''"]
  by (simp add: item_def bindE_def)

text \<open>
  Claim C8, as the code has it. The tokens are the first and the second piece of the name
  cut at every space. \<open>select_best_full_name\<close> raises IndexError, from the token lookup
  itself, exactly when the name that supplies the last token contains no space;
  otherwise it returns a name, also when the other name has a single token.
\<close>

theorem short_name_index_error:
  assumes "r ''score_1'' = Some (Num s1)" and "r ''score_2'' = Some (Num s2)"
    and "r ''score_last_1'' = Some (Num l1)" and "r ''score_last_2'' = Some (Num l2)"
    and "r ''customer_name_1'' = Some (Str n1)" and "r ''customer_name_2'' = Some (Str n2)"
  shows "if CHR '' '' \<in> set (if l1 < l2 then n2 else n1)
         then \<exists>s. select_best_full_name r = Inr s
         else select_best_full_name r = Inl IndexError"
  using select_best_full_name_eq [OF assms]
  by (simp add: item_1_split bindE_def)

theorem short_name_index_error_witness:
  "select_best_full_name
     [''customer_name_1'' \<mapsto> Str ''Madonna'', ''customer_name_2'' \<mapsto> Str ''Madonna Ciccone'',
      ''score_1'' \<mapsto> Num 100, ''score_2'' \<mapsto> Num 100,
      ''score_last_1'' \<mapsto> Num 50, ''score_last_2'' \<mapsto> Num 50] = Inl IndexError"
  using short_name_index_error [of
     "[''customer_name_1'' \<mapsto> Str ''Madonna'', ''customer_name_2'' \<mapsto> Str ''Madonna Ciccone'',
      ''score_1'' \<mapsto> Num 100, ''score_2'' \<mapsto> Num 100,
      ''score_last_1'' \<mapsto> Num 50, ''score_last_2'' \<mapsto> Num 50]" 100 100 50 50
      "''Madonna''" "''Madonna Ciccone''"]
  by simp

text \<open>
  A row whose \<^verbatim>\<open>customer_name_2\<close> has a single token is accepted when the last token
  is taken from \<^verbatim>\<open>customer_name_1\<close>.
\<close>

theorem short_name_accepted_counterexample:
  "select_best_full_name
     [''customer_name_1'' \<mapsto> Str ''Jon Smith'', ''customer_name_2'' \<mapsto> Str ''Smith'',
      ''score_1'' \<mapsto> Num 90, ''score_2'' \<mapsto> Num 90,
      ''score_last_1'' \<mapsto> Num 100, ''score_last_2'' \<mapsto> Num 100] = Inr ''Jon Smith''"
  by (simp add: select_best_full_name_def greater_def token_def getitem_def bindE_def item_def)

section \<open>The frame through the pipeline\<close>

lemma column_length: "column df label = Inr vs \<Longrightarrow> length vs = length (rows df)"
  by (auto simp: column_def traverse_length split: if_splits)

lemma score_column_length:
  "score_column sc df label i choices = Inr vs \<Longrightarrow> length vs = length (rows df)"
  by (auto simp: score_column_def bindE_Inr dest!: traverse_length column_length)

lemma rows_assign: "length vs = length (rows df) \<Longrightarrow> length (rows (assign df label vs)) = length (rows df)"
  by (simp add: assign_def)

lemma drop_columns_rows:
  "drop_columns df labels = Inr df' \<Longrightarrow> length (rows df') = length (rows df)"
  by (auto simp: drop_columns_def split: if_splits)

lemma resolve_length:
  assumes "resolve sc reference df0 = Inr df"
  shows "length (rows df) = length (rows df0)"
  using assms unfolding resolve_def Let_def bindE_Inr
  by (auto simp: rename_columns_def rows_assign 
      dest!: traverse_length score_column_length drop_columns_rows)

lemma columns_assign:
  "columns (assign df label vs) =
     (if label \<in> set (columns df) then columns df else columns df @ [label])"
  by (simp add: assign_def)

lemma columns_fillna: "columns (fillna df v) = columns df"
  by (simp add: fillna_def)

lemma rows_fillna_length: "length (rows (fillna df v)) = length (rows df)"
  by (simp add: fillna_def)

lemma columns_rename: "columns (rename_columns f df) = map f (columns df)"
  by (simp add: rename_columns_def)

lemma drop_columns_columns:
  "drop_columns df labels = Inr df' \<Longrightarrow>
     columns df' = filter (\<lambda>c. c \<notin> set labels) (columns df)"
  by (auto simp: drop_columns_def split: if_splits)

lemma merge_left_columns:
  "merge_left l r lo ro sl sr = Inr j \<Longrightarrow>
     columns j = map (suffixed (columns r) sl) (columns l) @ map (suffixed (columns l) sr) (columns r)"
  by (auto simp: merge_left_def split: if_splits)

lemma filter_key_distinct:
  "distinct (map f rs) \<Longrightarrow> length (filter (\<lambda>r. f r = v) rs) \<le> 1"
proof (induction rs)
  case Nil
  then show ?case by simp
next
  case (Cons r rs)
  have "filter (\<lambda>r. f r = v) rs = []" if "f r = v"
  proof -
    have "f r \<notin> f ` set rs" using Cons.prems by simp
    then have "\<forall>x\<in>set rs. f x \<noteq> v" using that by blast
    then show ?thesis by (simp add: filter_empty_conv)
  qed
  then show ?case using Cons by auto
qed

lemma length_concat_ge:
  "(\<And>x. x \<in> set xs \<Longrightarrow> 1 \<le> length (g x)) \<Longrightarrow> length xs \<le> length (concat (map g xs))"
proof (induction xs)
  case Nil
  then show ?case by simp
next
  case (Cons a xs)
  have "1 \<le> length (g a)" by (rule Cons.prems) simp
  moreover have "length xs \<le> length (concat (map g xs))"
  proof (rule Cons.IH)
    fix x assume "x \<in> set xs"
    then have "x \<in> set (a # xs)" by simp
    then show "1 \<le> length (g x)" by (rule Cons.prems)
  qed
  ultimately show ?case by simp
qed

lemma length_concat_eq:
  "(\<And>x. x \<in> set xs \<Longrightarrow> length (g x) = 1) \<Longrightarrow> length (concat (map g xs)) = length xs"
  by (induction xs) auto

lemma merge_left_rows_ge:
  assumes "merge_left l r lo ro sl sr = Inr j"
  shows "length (rows l) \<le> length (rows j)"
proof -
  have "rows j = concat (map (\<lambda>x.
                  case filter (\<lambda>y. y ro = x lo) (rows r) of
                    [] \<Rightarrow> [merge_row (columns l) (columns r) sl sr x (missing_row (columns r))]
                  | m # ms \<Rightarrow> map (merge_row (columns l) (columns r) sl sr x) (m # ms))
                (rows l))"
    using assms by (auto simp: merge_left_def split: if_splits)
  then show ?thesis
    by (simp only:) (rule length_concat_ge, simp split: list.splits)
qed

lemma merge_left_rows_eq:
  assumes "merge_left l r lo ro sl sr = Inr j" and "distinct (map (\<lambda>y. y ro) (rows r))"
  shows "length (rows j) = length (rows l)"
proof -
  have "rows j = concat (map (\<lambda>x.
                  case filter (\<lambda>y. y ro = x lo) (rows r) of
                    [] \<Rightarrow> [merge_row (columns l) (columns r) sl sr x (missing_row (columns r))]
                  | m # ms \<Rightarrow> map (merge_row (columns l) (columns r) sl sr x) (m # ms))
                (rows l))"
    using assms by (auto simp: merge_left_def split: if_splits)
  moreover have "length (case filter (\<lambda>y. y ro = x lo) (rows r) of
                    [] \<Rightarrow> [merge_row (columns l) (columns r) sl sr x (missing_row (columns r))]
                  | m # ms \<Rightarrow> map (merge_row (columns l) (columns r) sl sr x) (m # ms)) = 1" for x
    using filter_key_distinct [OF assms(2), of "x lo"]
    by (cases "filter (\<lambda>y. y ro = x lo) (rows r)") auto
  ultimately show ?thesis
    by (simp only:) (rule length_concat_eq, simp)
qed

lemma merge_step_rows:
  assumes "merge_step sc transactions customers = Inr j"
  shows "length (rows transactions) \<le> length (rows j)"
    and "distinct (map (\<lambda>r. r ''customer_name'') (rows customers)) \<Longrightarrow>
           length (rows j) = length (rows transactions)"
proof -
  obtain names external where n: "column transactions ''customer_name'' = Inr names"
    and e: "length external = length names"
    and m: "merge_left (assign transactions ''external_name'' external) customers
              ''external_name'' ''customer_name'' ''_1'' ''_2'' = Inr j"
    using assms unfolding merge_step_def bindE_Inr by (auto dest: traverse_length)
  have len: "length (rows (assign transactions ''external_name'' external)) = length (rows transactions)"
    using e column_length [OF n] by (simp add: rows_assign)
  show "length (rows transactions) \<le> length (rows j)"
    using merge_left_rows_ge [OF m] len by simp
  show "length (rows j) = length (rows transactions)"
    if "distinct (map (\<lambda>r. r ''customer_name'') (rows customers))"
    using merge_left_rows_eq [OF m that] len by simp
qed

lemma column_Inr:
  assumes "column df label = Inr vs"
  shows "label \<in> set (columns df)" and "length vs = length (rows df)"
    and "\<And>i. i < length (rows df) \<Longrightarrow> (rows df ! i) label = Some (vs ! i)"
proof -
  show "label \<in> set (columns df)" using assms by (auto simp: column_def split: if_splits)
  then have t: "traverse (\<lambda>r. getitem r label) (rows df) = Inr vs"
    using assms by (simp add: column_def)
  show "length vs = length (rows df)" using t by (rule traverse_length)
  show "(rows df ! i) label = Some (vs ! i)" if "i < length (rows df)" for i
    using traverse_nth [OF t that] by (auto simp: getitem_def split: option.splits)
qed

lemma merge_step_Inr:
  assumes "merge_step sc transactions customers = Inr j"
  obtains customers_names names external where
    "column customers ''customer_name'' = Inr customers_names"
    "column transactions ''customer_name'' = Inr names"
    "traverse (\<lambda>name.
              bindE (as_name name) (\<lambda>n.
              bindE (traverse as_name customers_names) (\<lambda>choices.
              bindE (extract_best sc n choices 75) (\<lambda>best. Inr (cell_of best)))))
            names = Inr external"
    "merge_left (assign transactions ''external_name'' external) customers
       ''external_name'' ''customer_name'' ''_1'' ''_2'' = Inr j"
  using assms unfolding merge_step_def bindE_Inr by blast

lemma map2_conv_upt:
  "length ys = length xs \<Longrightarrow> map2 f xs ys = map (\<lambda>k. f (xs ! k) (ys ! k)) [0..<length xs]"
  by (rule nth_equalityI) auto

lemma merge_left_rows:
  assumes "merge_left l r lo ro sl sr = Inr j"
  shows "rows j = concat (map (\<lambda>x.
           map (merge_row (columns l) (columns r) sl sr x)
             (case filter (\<lambda>y. y ro = x lo) (rows r) of
                [] \<Rightarrow> [missing_row (columns r)]
              | m # ms \<Rightarrow> m # ms)) (rows l))"
proof -
  have "rows j = concat (map (\<lambda>x.
                  case filter (\<lambda>y. y ro = x lo) (rows r) of
                    [] \<Rightarrow> [merge_row (columns l) (columns r) sl sr x (missing_row (columns r))]
                  | m # ms \<Rightarrow> map (merge_row (columns l) (columns r) sl sr x) (m # ms))
                (rows l))"
    using assms by (auto simp: merge_left_def split: if_splits)
  also have "\<dots> = concat (map (\<lambda>x.
           map (merge_row (columns l) (columns r) sl sr x)
             (case filter (\<lambda>y. y ro = x lo) (rows r) of
                [] \<Rightarrow> [missing_row (columns r)]
              | m # ms \<Rightarrow> m # ms)) (rows l))"
    by (rule arg_cong [where f = concat], rule map_cong) (auto split: list.splits)
  finally show ?thesis .
qed

text \<open>
  Claim C2, as the code has it. The left join keeps every transaction, in order: the rows
  of the merged frame are the concatenation, over the transactions in their order, of one
  block per transaction. The block of a transaction holds its row (with its resolved
  \<^verbatim>\<open>external_name\<close>) joined with each customer row whose \<^verbatim>\<open>customer_name\<close> is
  that resolved name, one row per such customer row in the order of the customer table,
  and a single row with missing customer cells when there is none. The later steps of
  \<open>main\<close> keep the number of rows. So the output has at least one row per transaction,
  and exactly as many rows as transactions when no two customer rows carry the same
  \<^verbatim>\<open>customer_name\<close>.
\<close>

theorem left_join_blocks:
  assumes "merge_step sc transactions customers = Inr j"
    and "main sc reference transactions customers = Inr df"
  shows "\<exists>external.
           length external = length (rows transactions)
         \<and> (\<forall>k<length (rows transactions). \<exists>n choices best.
               (rows transactions ! k) ''customer_name'' = Some (Str n)
             \<and> map (\<lambda>y. y ''customer_name'') (rows customers) = map (\<lambda>c. Some (Str c)) choices
             \<and> extract_best sc n choices 75 = Inr best
             \<and> external ! k = cell_of best)
         \<and> rows j = concat (map (\<lambda>k.
               map (merge_row (columns (assign transactions ''external_name'' external))
                      (columns customers) ''_1'' ''_2''
                      ((rows transactions ! k)(''external_name'' \<mapsto> external ! k)))
                 (case filter (\<lambda>y. y ''customer_name'' = Some (external ! k)) (rows customers) of
                    [] \<Rightarrow> [missing_row (columns customers)]
                  | m # ms \<Rightarrow> m # ms))
               [0..<length (rows transactions)])
         \<and> length (rows df) = length (rows j)
         \<and> length (rows transactions) \<le> length (rows df)
         \<and> (distinct (map (\<lambda>y. y ''customer_name'') (rows customers))
              \<longrightarrow> length (rows df) = length (rows transactions))"
proof -
  obtain customers_names names external where
    cn: "column customers ''customer_name'' = Inr customers_names"
    and n: "column transactions ''customer_name'' = Inr names"
    and t: "traverse (\<lambda>name.
              bindE (as_name name) (\<lambda>n.
              bindE (traverse as_name customers_names) (\<lambda>choices.
              bindE (extract_best sc n choices 75) (\<lambda>best. Inr (cell_of best)))))
            names = Inr external"
    and m: "merge_left (assign transactions ''external_name'' external) customers
       ''external_name'' ''customer_name'' ''_1'' ''_2'' = Inr j"
    using assms(1) by (rule merge_step_Inr)
  let ?n = "length (rows transactions)"
  let ?t = "assign transactions ''external_name'' external"
  have len: "length external = ?n"
    using traverse_length [OF t] column_Inr(2) [OF n] by simp
  have resolved: "\<exists>nm choices best.
               (rows transactions ! k) ''customer_name'' = Some (Str nm)
             \<and> map (\<lambda>y. y ''customer_name'') (rows customers) = map (\<lambda>c. Some (Str c)) choices
             \<and> extract_best sc nm choices 75 = Inr best
             \<and> external ! k = cell_of best" if k: "k < ?n" for k
  proof -
    have kn: "k < length names" using column_Inr(2) [OF n] k by simp
    obtain nm choices best where a: "as_name (names ! k) = Inr nm"
      and c: "traverse as_name customers_names = Inr choices"
      and b: "extract_best sc nm choices 75 = Inr best" and e: "external ! k = cell_of best"
      using traverse_nth [OF t kn] unfolding bindE_Inr by auto
    have "names ! k = Str nm" using a by (cases "names ! k") auto
    then have tn: "(rows transactions ! k) ''customer_name'' = Some (Str nm)"
      using column_Inr(3) [OF n k] by simp
    have lc: "length choices = length customers_names" using c by (rule traverse_length)
    have "map (\<lambda>y. y ''customer_name'') (rows customers) = map (\<lambda>c. Some (Str c)) choices"
    proof (rule nth_equalityI)
      show "length (map (\<lambda>y. y ''customer_name'') (rows customers))
          = length (map (\<lambda>c. Some (Str c)) choices)"
        using lc column_Inr(2) [OF cn] by simp
    next
      fix i assume "i < length (map (\<lambda>y. y ''customer_name'') (rows customers))"
      then have i: "i < length (rows customers)" by simp
      then have ic: "i < length customers_names" using column_Inr(2) [OF cn] by simp
      have "as_name (customers_names ! i) = Inr (choices ! i)" using traverse_nth [OF c ic] .
      then have "customers_names ! i = Str (choices ! i)"
        by (cases "customers_names ! i") auto
      then show "map (\<lambda>y. y ''customer_name'') (rows customers) ! i
          = map (\<lambda>c. Some (Str c)) choices ! i"
        using column_Inr(3) [OF cn i] i ic lc by simp
    qed
    then show ?thesis using tn b e by blast
  qed
  have rt: "rows ?t = map (\<lambda>k. (rows transactions ! k)(''external_name'' \<mapsto> external ! k)) [0..<?n]"
    using len by (simp add: assign_def map2_conv_upt)
  have blocks: "rows j = concat (map (\<lambda>k.
               map (merge_row (columns ?t) (columns customers) ''_1'' ''_2''
                      ((rows transactions ! k)(''external_name'' \<mapsto> external ! k)))
                 (case filter (\<lambda>y. y ''customer_name'' = Some (external ! k)) (rows customers) of
                    [] \<Rightarrow> [missing_row (columns customers)]
                  | m # ms \<Rightarrow> m # ms))
               [0..<?n])"
    unfolding merge_left_rows [OF m] rt by (simp add: comp_def)
  obtain j' where j': "merge_step sc transactions customers = Inr j'"
    and r: "resolve sc reference (fillna j' (Str '' '')) = Inr df"
    using assms(2) unfolding main_def merged_df_def bindE_Inr by auto
  have "j' = j" using j' assms(1) by simp
  then have ld: "length (rows df) = length (rows j)"
    using resolve_length [OF r] by (simp add: rows_fillna_length)
  show ?thesis
    using len resolved blocks ld merge_step_rows [OF assms(1)] by (intro exI [of _ external]) simp
qed

theorem left_join_blocks_witness:
  "\<exists>j df. merge_step (\<lambda>q c. if q = c then 100 else 20)
     \<lparr>columns = [''transaction_id'', ''amount'', ''transaction_date'', ''customer_name''],
      rows = [[''transaction_id'' \<mapsto> Num 1, ''amount'' \<mapsto> Num 10,
               ''transaction_date'' \<mapsto> Str ''2024-01-01'',
               ''customer_name'' \<mapsto> Str ''Jonathan Doe''],
              [''transaction_id'' \<mapsto> Num 2, ''amount'' \<mapsto> Num 25,
               ''transaction_date'' \<mapsto> Str ''2024-01-02'',
               ''customer_name'' \<mapsto> Str ''Zyx Qwerty'']]\<rparr>
     \<lparr>columns = [''customer_id'', ''email'', ''customer_name''],
      rows = [[''customer_id'' \<mapsto> Num 7, ''email'' \<mapsto> Str ''jd@x.org'',
               ''customer_name'' \<mapsto> Str ''Jonathan Doe''],
              [''customer_id'' \<mapsto> Num 8, ''email'' \<mapsto> Str ''as@x.org'',
               ''customer_name'' \<mapsto> Str ''Alice Smith'']]\<rparr> = Inr j
   \<and> main (\<lambda>q c. if q = c then 100 else 20)
     \<lparr>first_female = [''MARY''], first_male = [''JOHN''], last_names = [''DOE'']\<rparr>
     \<lparr>columns = [''transaction_id'', ''amount'', ''transaction_date'', ''customer_name''],
      rows = [[''transaction_id'' \<mapsto> Num 1, ''amount'' \<mapsto> Num 10,
               ''transaction_date'' \<mapsto> Str ''2024-01-01'',
               ''customer_name'' \<mapsto> Str ''Jonathan Doe''],
              [''transaction_id'' \<mapsto> Num 2, ''amount'' \<mapsto> Num 25,
               ''transaction_date'' \<mapsto> Str ''2024-01-02'',
               ''customer_name'' \<mapsto> Str ''Zyx Qwerty'']]\<rparr>
     \<lparr>columns = [''customer_id'', ''email'', ''customer_name''],
      rows = [[''customer_id'' \<mapsto> Num 7, ''email'' \<mapsto> Str ''jd@x.org'',
               ''customer_name'' \<mapsto> Str ''Jonathan Doe''],
              [''customer_id'' \<mapsto> Num 8, ''email'' \<mapsto> Str ''as@x.org'',
               ''customer_name'' \<mapsto> Str ''Alice Smith'']]\<rparr> = Inr df
   \<and> length (rows j) = 2 \<and> length (rows df) = 2"
proof -
  let ?sc = "\<lambda>(q :: string) (c :: string). if q = c then (100 :: int) else 20"
  let ?R = "\<lparr>first_female = [''MARY''], first_male = [''JOHN''], last_names = [''DOE'']\<rparr>"
  let ?T = "\<lparr>columns = [''transaction_id'', ''amount'', ''transaction_date'', ''customer_name''],
      rows = [[''transaction_id'' \<mapsto> Num 1, ''amount'' \<mapsto> Num 10,
               ''transaction_date'' \<mapsto> Str ''2024-01-01'',
               ''customer_name'' \<mapsto> Str ''Jonathan Doe''],
              [''transaction_id'' \<mapsto> Num 2, ''amount'' \<mapsto> Num 25,
               ''transaction_date'' \<mapsto> Str ''2024-01-02'',
               ''customer_name'' \<mapsto> Str ''Zyx Qwerty'']]\<rparr>"
  let ?C = "\<lparr>columns = [''customer_id'', ''email'', ''customer_name''],
      rows = [[''customer_id'' \<mapsto> Num 7, ''email'' \<mapsto> Str ''jd@x.org'',
               ''customer_name'' \<mapsto> Str ''Jonathan Doe''],
              [''customer_id'' \<mapsto> Num 8, ''email'' \<mapsto> Str ''as@x.org'',
               ''customer_name'' \<mapsto> Str ''Alice Smith'']]\<rparr>"
  have "\<not> isl (merge_step ?sc ?T ?C)" by code_simp
  then obtain j where j: "merge_step ?sc ?T ?C = Inr j"
    by (cases "merge_step ?sc ?T ?C") auto
  have "\<not> isl (main ?sc ?R ?T ?C)" by code_simp
  then obtain df where df: "main ?sc ?R ?T ?C = Inr df"
    by (cases "main ?sc ?R ?T ?C") auto
  have "distinct (map (\<lambda>y. y ''customer_name'') (rows ?C))" by simp
  with left_join_blocks [OF j df]
  have "length (rows df) = 2" "length (rows j) = 2" by auto
  with j df show ?thesis by blast
qed

text \<open>
  One transaction whose name is carried by two customer rows gives two rows.
\<close>

theorem left_join_fan_out_counterexample:
  "bindE (main (\<lambda>q c. if q = c then 100 else 20)
     \<lparr>first_female = [''MARY''], first_male = [''JOHN''], last_names = [''DOE'']\<rparr>
     \<lparr>columns = [''transaction_id'', ''amount'', ''transaction_date'', ''customer_name''],
      rows = [[''transaction_id'' \<mapsto> Num 1, ''amount'' \<mapsto> Num 10,
               ''transaction_date'' \<mapsto> Str ''2024-01-01'',
               ''customer_name'' \<mapsto> Str ''Jonathan Doe'']]\<rparr>
     \<lparr>columns = [''customer_id'', ''email'', ''customer_name''],
      rows = [[''customer_id'' \<mapsto> Num 7, ''email'' \<mapsto> Str ''jd@x.org'',
               ''customer_name'' \<mapsto> Str ''Jonathan Doe''],
              [''customer_id'' \<mapsto> Num 8, ''email'' \<mapsto> Str ''jdoe@y.org'',
               ''customer_name'' \<mapsto> Str ''Jonathan Doe'']]\<rparr>)
     (\<lambda>df. Inr (length (rows df))) = Inr 2"
  by code_simp

text \<open>
  Claim C4, as the code has it. When the only label that the two input tables share is
  \<^verbatim>\<open>customer_name\<close> (transactions: transaction_id, amount, transaction_date,
  customer_name; customers: customer_id, email, customer_name), the table that \<open>main\<close>
  returns has exactly the six upper-case columns. When the transactions carry
  \<^verbatim>\<open>customer_id\<close> and \<^verbatim>\<open>email\<close> as well, both copies of each stay in the
  table under their merge suffixes.
\<close>

theorem output_columns:
  assumes "main sc reference transactions customers = Inr df"
  shows "(columns transactions = [''transaction_id'', ''amount'', ''transaction_date'', ''customer_name'']
          \<and> columns customers = [''customer_id'', ''email'', ''customer_name'']
          \<longrightarrow> columns df = [''TRANSACTION_ID'', ''AMOUNT'', ''TRANSACTION_DATE'', ''CUSTOMER_ID'',
                ''EMAIL'', ''CUSTOMER_NAME''])
       \<and> (columns transactions = [''transaction_id'', ''amount'', ''transaction_date'',
             ''customer_id'', ''email'', ''customer_name'']
          \<and> columns customers = [''customer_id'', ''email'', ''customer_name'']
          \<longrightarrow> columns df = [''TRANSACTION_ID'', ''AMOUNT'', ''TRANSACTION_DATE'', ''CUSTOMER_ID_1'',
                ''EMAIL_1'', ''CUSTOMER_ID_2'', ''EMAIL_2'', ''CUSTOMER_NAME''])"
proof -
  obtain j where j: "merge_step sc transactions customers = Inr j"
    and r: "resolve sc reference (fillna j (Str '' '')) = Inr df"
    using assms unfolding main_def merged_df_def bindE_Inr by auto
  obtain external where m: "merge_left (assign transactions ''external_name'' external) customers
              ''external_name'' ''customer_name'' ''_1'' ''_2'' = Inr j"
    using j unfolding merge_step_def bindE_Inr by auto
  note jc = merge_left_columns [OF m, unfolded columns_assign]
  obtain df1 s1 s2 l1 l2 nm df7 where
    d1: "drop_columns (fillna j (Str '' '')) [''external_name''] = Inr df1"
    and d7: "drop_columns (assign (assign (assign (assign (assign df1 ''score_1'' s1)
               ''score_2'' s2) ''score_last_1'' l1) ''score_last_2'' l2) ''customer_name'' nm)
               [''customer_name_1'', ''customer_name_2'', ''score_1'',
                ''score_2'', ''score_last_1'', ''score_last_2''] = Inr df7"
    and df: "df = rename_columns str_upper df7"
    using r unfolding resolve_def Let_def bindE_Inr by auto
  note c1 = drop_columns_columns [OF d1, unfolded columns_fillna]
  note c7 = drop_columns_columns [OF d7, unfolded columns_assign]
  have a: "columns df = [''TRANSACTION_ID'', ''AMOUNT'', ''TRANSACTION_DATE'', ''CUSTOMER_ID'',
                ''EMAIL'', ''CUSTOMER_NAME'']"
    if "columns transactions = [''transaction_id'', ''amount'', ''transaction_date'', ''customer_name'']"
      and "columns customers = [''customer_id'', ''email'', ''customer_name'']"
  proof -
    have "columns j = [''transaction_id'', ''amount'', ''transaction_date'', ''customer_name_1'',
        ''external_name'', ''customer_id'', ''email'', ''customer_name_2'']"
      using that jc by (simp add: suffixed_def)
    then have "columns df1 = [''transaction_id'', ''amount'', ''transaction_date'',
        ''customer_name_1'', ''customer_id'', ''email'', ''customer_name_2'']"
      using c1 by simp
    then have "columns df7 = [''transaction_id'', ''amount'', ''transaction_date'',
        ''customer_id'', ''email'', ''customer_name'']"
      using c7 by simp
    then show ?thesis
      by (simp add: df columns_rename str_upper_def upper_char_def)
  qed
  have b: "columns df = [''TRANSACTION_ID'', ''AMOUNT'', ''TRANSACTION_DATE'', ''CUSTOMER_ID_1'',
                ''EMAIL_1'', ''CUSTOMER_ID_2'', ''EMAIL_2'', ''CUSTOMER_NAME'']"
    if "columns transactions = [''transaction_id'', ''amount'', ''transaction_date'',
             ''customer_id'', ''email'', ''customer_name'']"
      and "columns customers = [''customer_id'', ''email'', ''customer_name'']"
  proof -
    have "columns j = [''transaction_id'', ''amount'', ''transaction_date'', ''customer_id_1'',
        ''email_1'', ''customer_name_1'', ''external_name'', ''customer_id_2'', ''email_2'',
        ''customer_name_2'']"
      using that jc by (simp add: suffixed_def)
    then have "columns df1 = [''transaction_id'', ''amount'', ''transaction_date'',
        ''customer_id_1'', ''email_1'', ''customer_name_1'', ''customer_id_2'', ''email_2'',
        ''customer_name_2'']"
      using c1 by simp
    then have "columns df7 = [''transaction_id'', ''amount'', ''transaction_date'',
        ''customer_id_1'', ''email_1'', ''customer_id_2'', ''email_2'', ''customer_name'']"
      using c7 by simp
    then show ?thesis
      by (simp add: df columns_rename str_upper_def upper_char_def)
  qed
  from a b show ?thesis by blast
qed

theorem output_columns_witness:
  "\<exists>df. main (\<lambda>q c. 100)
     \<lparr>first_female = [''MARY''], first_male = [''JOHN''], last_names = [''DOE'']\<rparr>
     \<lparr>columns = [''transaction_id'', ''amount'', ''transaction_date'', ''customer_name''],
      rows = [[''transaction_id'' \<mapsto> Num 1, ''amount'' \<mapsto> Num 10,
               ''transaction_date'' \<mapsto> Str ''2024-01-01'',
               ''customer_name'' \<mapsto> Str ''Jon Doe'']]\<rparr>
     \<lparr>columns = [''customer_id'', ''email'', ''customer_name''],
      rows = [[''customer_id'' \<mapsto> Num 7, ''email'' \<mapsto> Str ''jd@x.org'',
               ''customer_name'' \<mapsto> Str ''Jonathan Doe'']]\<rparr> = Inr df
     \<and> columns df = [''TRANSACTION_ID'', ''AMOUNT'', ''TRANSACTION_DATE'', ''CUSTOMER_ID'',
                ''EMAIL'', ''CUSTOMER_NAME'']"
proof -
  let ?T = "\<lparr>columns = [''transaction_id'', ''amount'', ''transaction_date'', ''customer_name''],
      rows = [[''transaction_id'' \<mapsto> Num 1, ''amount'' \<mapsto> Num 10,
               ''transaction_date'' \<mapsto> Str ''2024-01-01'',
               ''customer_name'' \<mapsto> Str ''Jon Doe'']]\<rparr>"
  let ?C = "\<lparr>columns = [''customer_id'', ''email'', ''customer_name''],
      rows = [[''customer_id'' \<mapsto> Num 7, ''email'' \<mapsto> Str ''jd@x.org'',
               ''customer_name'' \<mapsto> Str ''Jonathan Doe'']]\<rparr>"
  let ?R = "\<lparr>first_female = [''MARY''], first_male = [''JOHN''], last_names = [''DOE'']\<rparr>"
  have "\<not> isl (main (\<lambda>q c. 100) ?R ?T ?C)" by code_simp
  then obtain df where df: "main (\<lambda>q c. 100) ?R ?T ?C = Inr df"
    by (cases "main (\<lambda>q c. 100) ?R ?T ?C") auto
  from output_columns [OF df] have "columns df = [''TRANSACTION_ID'', ''AMOUNT'',
      ''TRANSACTION_DATE'', ''CUSTOMER_ID'', ''EMAIL'', ''CUSTOMER_NAME'']" by simp
  with df show ?thesis by blast
qed

text \<open>
  With \<^verbatim>\<open>customer_id\<close> and \<^verbatim>\<open>email\<close> in both input tables the output has eight
  columns, four of them merge-suffixed.
\<close>

theorem output_columns_suffixed_counterexample:
  "bindE (main (\<lambda>q c. 100)
     \<lparr>first_female = [''MARY''], first_male = [''JOHN''], last_names = [''DOE'']\<rparr>
     \<lparr>columns = [''transaction_id'', ''amount'', ''transaction_date'', ''customer_id'',
                 ''email'', ''customer_name''],
      rows = [[''transaction_id'' \<mapsto> Num 1, ''amount'' \<mapsto> Num 10,
               ''transaction_date'' \<mapsto> Str ''2024-01-01'', ''customer_id'' \<mapsto> Num 7,
               ''email'' \<mapsto> Str ''jd@x.org'', ''customer_name'' \<mapsto> Str ''Jon Doe'']]\<rparr>
     \<lparr>columns = [''customer_id'', ''email'', ''customer_name''],
      rows = [[''customer_id'' \<mapsto> Num 7, ''email'' \<mapsto> Str ''jd@x.org'',
               ''customer_name'' \<mapsto> Str ''Jonathan Doe'']]\<rparr>)
     (\<lambda>df. Inr (columns df)) =
   Inr [''TRANSACTION_ID'', ''AMOUNT'', ''TRANSACTION_DATE'', ''CUSTOMER_ID_1'', ''EMAIL_1'',
        ''CUSTOMER_ID_2'', ''EMAIL_2'', ''CUSTOMER_NAME'']"
  by code_simp

section \<open>Rows of the merged frame\<close>

lemma relabel_None:
  assumes "k \<notin> f ` set labels"
  shows "relabel f labels r k = None"
proof -
  have "find (\<lambda>c. f c = k) labels = None"
    using assms by (auto simp: find_None_iff)
  then show ?thesis by (simp add: relabel_def)
qed

lemma relabel_hit:
  assumes "c \<in> set labels"
  shows "\<exists>c'\<in>set labels. f c' = f c \<and> relabel f labels r (f c) = r c'"
proof (cases "find (\<lambda>x. f x = f c) labels")
  case None
  then show ?thesis using assms by (auto simp: find_None_iff)
next
  case (Some c')
  then have "c' \<in> set labels" "f c' = f c" by (auto simp: find_Some_iff)
  then show ?thesis using Some by (auto simp: relabel_def)
qed

lemma relabel_inj:
  assumes "c \<in> set labels" and "inj_on f (set labels)"
  shows "relabel f labels r (f c) = r c"
proof -
  obtain c' where "c' \<in> set labels" "f c' = f c" "relabel f labels r (f c) = r c'"
    using relabel_hit [OF assms(1)] by blast
  then show ?thesis using assms by (auto dest: inj_onD)
qed

lemma suffix_1_neq: "c @ ''_1'' \<noteq> ''external_name''"
proof
  assume "c @ ''_1'' = ''external_name''"
  then have "last (c @ ''_1'') = last ''external_name''" by simp
  then show False by simp
qed

lemma suffix_2_neq: "c @ ''_2'' \<noteq> ''external_name''"
proof
  assume "c @ ''_2'' = ''external_name''"
  then have "last (c @ ''_2'') = last ''external_name''" by simp
  then show False by simp
qed

lemma merge_left_row_cases:
  assumes "merge_left l r lo ro sl sr = Inr j" and "i < length (rows j)"
  shows "\<exists>x\<in>set (rows l).
           (filter (\<lambda>y. y ro = x lo) (rows r) = []
              \<and> rows j ! i = merge_row (columns l) (columns r) sl sr x (missing_row (columns r)))
           \<or> (\<exists>y\<in>set (rows r). y ro = x lo
              \<and> rows j ! i = merge_row (columns l) (columns r) sl sr x y)"
proof -
  let ?g = "\<lambda>x. case filter (\<lambda>y. y ro = x lo) (rows r) of
                    [] \<Rightarrow> [merge_row (columns l) (columns r) sl sr x (missing_row (columns r))]
                  | m # ms \<Rightarrow> map (merge_row (columns l) (columns r) sl sr x) (m # ms)"
  have "rows j = concat (map ?g (rows l))"
    using assms(1) by (auto simp: merge_left_def split: if_splits)
  then have "rows j ! i \<in> set (concat (map ?g (rows l)))"
    using assms(2) by (metis nth_mem)
  then obtain x where x: "x \<in> set (rows l)" and in_g: "rows j ! i \<in> set (?g x)"
    by auto
  show ?thesis
  proof (cases "filter (\<lambda>y. y ro = x lo) (rows r)")
    case Nil
    then show ?thesis using x in_g by auto
  next
    case (Cons m ms)
    then obtain y where "y \<in> set (m # ms)"
      and "rows j ! i = merge_row (columns l) (columns r) sl sr x y"
      using in_g by auto
    moreover then have "y \<in> set (rows r)" "y ro = x lo"
      using Cons [symmetric] by auto
    ultimately show ?thesis using x by blast
  qed
qed

lemma merge_row_external:
  assumes "''external_name'' \<in> set lcols"
  shows "merge_row lcols rcols ''_1'' ''_2'' x y ''external_name'' =
           (if ''external_name'' \<in> set rcols then None else x ''external_name'')"
proof -
  have r: "relabel (suffixed lcols ''_2'') rcols y ''external_name'' = None"
    using assms by (intro relabel_None) (auto simp: suffixed_def suffix_2_neq)
  show ?thesis
  proof (cases "''external_name'' \<in> set rcols")
    case True
    have "''external_name'' \<notin> suffixed rcols ''_1'' ` set lcols"
      using True by (auto simp: suffixed_def suffix_1_neq)
    then show ?thesis using r True by (simp add: merge_row_def map_add_def relabel_None)
  next
    case False
    then have s: "suffixed rcols ''_1'' ''external_name'' = ''external_name''"
      by (simp add: suffixed_def)
    obtain c' where c': "c' \<in> set lcols" "suffixed rcols ''_1'' c' = ''external_name''"
      "relabel (suffixed rcols ''_1'') lcols x ''external_name'' = x c'"
      using relabel_hit [OF assms, of "suffixed rcols ''_1''" x] s by auto
    then have "c' = ''external_name''"
      by (auto simp: suffixed_def suffix_1_neq split: if_splits)
    then show ?thesis using r False c' by (simp add: merge_row_def map_add_def)
  qed
qed

lemma merge_row_missing:
  assumes "c \<in> set rcols"
  shows "merge_row lcols rcols sl sr x (missing_row rcols) (suffixed lcols sr c) = Some NaN"
proof -
  obtain c' where "c' \<in> set rcols"
    "relabel (suffixed lcols sr) rcols (missing_row rcols) (suffixed lcols sr c) = missing_row rcols c'"
    using relabel_hit [OF assms] by blast
  then show ?thesis by (simp add: merge_row_def map_add_def missing_row_def)
qed

lemma merge_step_customer_names:
  assumes "merge_step sc transactions customers = Inr j" and "rows transactions \<noteq> []"
    and "y \<in> set (rows customers)"
  shows "\<exists>s. y ''customer_name'' = Some (Str s)"
proof -
  obtain customers_names names external where
    cn: "column customers ''customer_name'' = Inr customers_names"
    and n: "column transactions ''customer_name'' = Inr names"
    and t: "traverse (\<lambda>name.
              bindE (as_name name) (\<lambda>n.
              bindE (traverse as_name customers_names) (\<lambda>choices.
              bindE (extract_best sc n choices 75) (\<lambda>best. Inr (cell_of best)))))
            names = Inr external"
    using assms(1) by (rule merge_step_Inr)
  have "names \<noteq> []" using column_Inr(2) [OF n] assms(2) by auto
  then have "0 < length names" by simp
  from traverse_nth [OF t this]
  obtain choices where ch: "traverse as_name customers_names = Inr choices"
    unfolding bindE_Inr by blast
  obtain k where k: "k < length (rows customers)" "rows customers ! k = y"
    using assms(3) by (auto simp: in_set_conv_nth)
  have y: "y ''customer_name'' = Some (customers_names ! k)"
    using column_Inr(3) [OF cn k(1)] k(2) by simp
  have "k < length customers_names" using column_Inr(2) [OF cn] k(1) by simp
  from traverse_nth [OF ch this] have "\<exists>s. customers_names ! k = Str s"
    by (cases "customers_names ! k") auto
  then show ?thesis using y by auto
qed

lemma rows_fillna_nth:
  "i < length (rows df) \<Longrightarrow>
     rows (fillna df v) ! i = (\<lambda>k. map_option (\<lambda>c. if c = NaN then v else c) ((rows df ! i) k))"
  by (simp add: fillna_def)

lemma merge_step_unmatched_row:
  assumes "merge_step sc transactions customers = Inr j"
    and "i < length (rows j)"
    and "(rows j ! i) ''external_name'' = Some NaN"
  obtains external k where
    "length external = length (rows transactions)" "k < length (rows transactions)"
    "columns j = map (suffixed (columns customers) ''_1'')
                   (columns (assign transactions ''external_name'' external))
                 @ map (suffixed (columns (assign transactions ''external_name'' external)) ''_2'')
                   (columns customers)"
    "rows j ! i =
       merge_row (columns (assign transactions ''external_name'' external)) (columns customers)
         ''_1'' ''_2'' ((rows transactions ! k)(''external_name'' \<mapsto> external ! k))
         (missing_row (columns customers))"
proof -
  obtain customers_names names external where
    cn: "column customers ''customer_name'' = Inr customers_names"
    and n: "column transactions ''customer_name'' = Inr names"
    and t: "traverse (\<lambda>name.
              bindE (as_name name) (\<lambda>n.
              bindE (traverse as_name customers_names) (\<lambda>choices.
              bindE (extract_best sc n choices 75) (\<lambda>best. Inr (cell_of best)))))
            names = Inr external"
    and m: "merge_left (assign transactions ''external_name'' external) customers
       ''external_name'' ''customer_name'' ''_1'' ''_2'' = Inr j"
    using assms(1) by (rule merge_step_Inr)
  let ?t = "assign transactions ''external_name'' external"
  have len: "length external = length (rows transactions)"
    using traverse_length [OF t] column_Inr(2) [OF n] by simp
  have ext: "''external_name'' \<in> set (columns ?t)" by (simp add: columns_assign)
  obtain x where x: "x \<in> set (rows ?t)"
    and cases: "(filter (\<lambda>y. y ''customer_name'' = x ''external_name'') (rows customers) = []
              \<and> rows j ! i = merge_row (columns ?t) (columns customers) ''_1'' ''_2'' x
                    (missing_row (columns customers)))
           \<or> (\<exists>y\<in>set (rows customers). y ''customer_name'' = x ''external_name''
              \<and> rows j ! i = merge_row (columns ?t) (columns customers) ''_1'' ''_2'' x y)"
    using merge_left_row_cases [OF m assms(2)] by blast
  have "rows ?t \<noteq> []" using x by auto
  then have ne: "rows transactions \<noteq> []" by (auto simp: assign_def)
  have unmatched: "rows j ! i = merge_row (columns ?t) (columns customers) ''_1'' ''_2'' x
                    (missing_row (columns customers))"
  proof (rule ccontr)
    assume "\<not> ?thesis"
    then obtain y where y: "y \<in> set (rows customers)" "y ''customer_name'' = x ''external_name''"
      and r: "rows j ! i = merge_row (columns ?t) (columns customers) ''_1'' ''_2'' x y"
      using cases by blast
    have "x ''external_name'' = Some NaN"
      using assms(3) unfolding r merge_row_external [OF ext] by (simp split: if_splits)
    then show False using merge_step_customer_names [OF assms(1) ne y(1)] y(2) by simp
  qed
  obtain k where k: "k < length (rows ?t)" "rows ?t ! k = x"
    using x by (auto simp: in_set_conv_nth)
  have k': "k < length (rows transactions)" using k(1) len by (simp add: rows_assign)
  have "x = (rows transactions ! k)(''external_name'' \<mapsto> external ! k)"
    using k(2) k' len by (simp add: assign_def)
  then show thesis
    using that [OF len k' merge_left_columns [OF m]] unmatched by simp
qed

text \<open>
  Claim C9. A row of the merged frame whose \<^verbatim>\<open>external_name\<close> is missing comes
  from a transaction that no customer matched. After \<^verbatim>\<open>fillna(' ')\<close> every
  customer-side cell of that row is the string \<^verbatim>\<open>" "\<close>, in particular
  \<^verbatim>\<open>customer_name_2\<close>, and splitting it at the space gives two (empty) tokens, so
  that the token lookups of the scoring step succeed.
\<close>

theorem unmatched_customer_side_blank:
  assumes "merge_step sc transactions customers = Inr j"
    and "i < length (rows j)"
    and "(rows j ! i) ''external_name'' = Some NaN"
  shows "merged_df sc transactions customers = Inr (fillna j (Str '' ''))
       \<and> (\<forall>c\<in>set (columns customers).
            (rows (fillna j (Str '' '')) ! i)
              (if c \<in> set (columns transactions) \<or> c = ''external_name'' then c @ ''_2'' else c)
            = Some (Str '' ''))
       \<and> (rows (fillna j (Str '' '')) ! i) ''customer_name_2'' = Some (Str '' '')
       \<and> token (rows (fillna j (Str '' '')) ! i) ''customer_name_2'' 0 = Inr []
       \<and> token (rows (fillna j (Str '' '')) ! i) ''customer_name_2'' 1 = Inr []"
proof -
  let ?m = "fillna j (Str '' '')"
  obtain external k where
    row: "rows j ! i =
       merge_row (columns (assign transactions ''external_name'' external)) (columns customers)
         ''_1'' ''_2'' ((rows transactions ! k)(''external_name'' \<mapsto> external ! k))
         (missing_row (columns customers))"
    using assms by (rule merge_step_unmatched_row)
  let ?lcols = "columns (assign transactions ''external_name'' external)"
  have sfx: "suffixed ?lcols ''_2'' c =
     (if c \<in> set (columns transactions) \<or> c = ''external_name'' then c @ ''_2'' else c)" for c
    by (auto simp: suffixed_def columns_assign)
  have blank: "(rows ?m ! i) (suffixed ?lcols ''_2'' c) = Some (Str '' '')"
    if "c \<in> set (columns customers)" for c
    using merge_row_missing [OF that, of ?lcols "''_1''" "''_2''"] assms(2)
    by (simp add: rows_fillna_nth row)
  obtain customers_names names where
    "column customers ''customer_name'' = Inr customers_names"
    "column transactions ''customer_name'' = Inr names"
    using assms(1) by (rule merge_step_Inr)
  then have "''customer_name'' \<in> set (columns customers)"
    "''customer_name'' \<in> set (columns transactions)"
    by (simp_all add: column_Inr(1))
  then have name2: "(rows ?m ! i) ''customer_name_2'' = Some (Str '' '')"
    using blank [of "''customer_name''"] by (simp add: sfx)
  have "merged_df sc transactions customers = Inr ?m"
    using assms(1) by (simp add: merged_df_def bindE_def)
  moreover have "\<forall>c\<in>set (columns customers).
            (rows ?m ! i)
              (if c \<in> set (columns transactions) \<or> c = ''external_name'' then c @ ''_2'' else c)
            = Some (Str '' '')"
    using blank by (simp add: sfx)
  moreover have "token (rows ?m ! i) ''customer_name_2'' 0 = Inr []"
    "token (rows ?m ! i) ''customer_name_2'' 1 = Inr []"
    using name2 by (simp_all add: token_Str item_def)
  ultimately show ?thesis using name2 by blast
qed

theorem unmatched_customer_side_blank_witness:
  "\<exists>j. merge_step (\<lambda>q c. 20)
     \<lparr>columns = [''transaction_id'', ''amount'', ''transaction_date'', ''customer_name''],
      rows = [[''transaction_id'' \<mapsto> Num 1, ''amount'' \<mapsto> Num 10,
               ''transaction_date'' \<mapsto> Str ''2024-01-01'',
               ''customer_name'' \<mapsto> Str ''Zyx Qwerty'']]\<rparr>
     \<lparr>columns = [''customer_id'', ''email'', ''customer_name''],
      rows = [[''customer_id'' \<mapsto> Num 7, ''email'' \<mapsto> Str ''as@x.org'',
               ''customer_name'' \<mapsto> Str ''Alice Smith'']]\<rparr> = Inr j
     \<and> (rows (fillna j (Str '' '')) ! 0) ''customer_id'' = Some (Str '' '')
     \<and> (rows (fillna j (Str '' '')) ! 0) ''email'' = Some (Str '' '')
     \<and> (rows (fillna j (Str '' '')) ! 0) ''customer_name_2'' = Some (Str '' '')"
proof -
  let ?T = "\<lparr>columns = [''transaction_id'', ''amount'', ''transaction_date'', ''customer_name''],
      rows = [[''transaction_id'' \<mapsto> Num 1, ''amount'' \<mapsto> Num 10,
               ''transaction_date'' \<mapsto> Str ''2024-01-01'',
               ''customer_name'' \<mapsto> Str ''Zyx Qwerty'']]\<rparr>"
  let ?C = "\<lparr>columns = [''customer_id'', ''email'', ''customer_name''],
      rows = [[''customer_id'' \<mapsto> Num 7, ''email'' \<mapsto> Str ''as@x.org'',
               ''customer_name'' \<mapsto> Str ''Alice Smith'']]\<rparr>"
  have "bindE (merge_step (\<lambda>q c. 20) ?T ?C)
          (\<lambda>j. Inr (length (rows j), (rows j ! 0) ''external_name'')) = Inr (1, Some NaN)"
    by code_simp
  then obtain j where j: "merge_step (\<lambda>q c. 20) ?T ?C = Inr j"
    and l1: "length (rows j) = 1" and e: "(rows j ! 0) ''external_name'' = Some NaN"
    by (cases "merge_step (\<lambda>q c. 20) ?T ?C") (auto simp: bindE_def)
  have l: "0 < length (rows j)" using l1 by simp
  from unmatched_customer_side_blank [OF j l e]
  have "(rows (fillna j (Str '' '')) ! 0) ''customer_id'' = Some (Str '' '')"
    "(rows (fillna j (Str '' '')) ! 0) ''email'' = Some (Str '' '')"
    "(rows (fillna j (Str '' '')) ! 0) ''customer_name_2'' = Some (Str '' '')"
    by auto
  with j show ?thesis by blast
qed

section \<open>The name of an unmatched transaction\<close>

lemma get_best_score_Inr:
  assumes "get_best_score sc q cs = Inr s"
  shows "(\<exists>c\<in>set cs. s = sc q c) \<and> (\<forall>c\<in>set cs. sc q c \<le> s)"
proof -
  obtain c where "extractOne sc q cs 0 = Some (c, s)"
    using assms by (auto simp: get_best_score_def split: option.splits)
  from extractOne_Some [OF this] show ?thesis by blast
qed

lemma score_column_nth:
  assumes "score_column sc df label k choices = Inr vs" and "i < length (rows df)"
    and "(rows df ! i) label = Some (Str n)"
  shows "\<exists>t s. item (str_split CHR '' '' n) k = Inr t \<and> get_best_score sc t choices = Inr s
           \<and> vs ! i = Num s"
proof -
  obtain names where c: "column df label = Inr names"
    and t: "traverse (\<lambda>name.
       bindE (split_cell name) (\<lambda>ts.
       bindE (item ts k) (\<lambda>t.
       bindE (get_best_score sc t choices) (\<lambda>s. Inr (Num s))))) names = Inr vs"
    using assms(1) unfolding score_column_def bindE_Inr by blast
  have n: "names ! i = Str n" using column_Inr(3) [OF c assms(2)] assms(3) by simp
  have "i < length names" using column_Inr(2) [OF c] assms(2) by simp
  from traverse_nth [OF t this] show ?thesis
    unfolding n bindE_Inr by auto
qed

lemma rows_assign_nth:
  "length vs = length (rows df) \<Longrightarrow> i < length (rows df) \<Longrightarrow>
     rows (assign df label vs) ! i = (rows df ! i)(label \<mapsto> vs ! i)"
  by (simp add: assign_def)

lemma drop_columns_nth:
  "drop_columns df labels = Inr df' \<Longrightarrow> i < length (rows df) \<Longrightarrow>
     rows df' ! i = (rows df ! i) |` (- set labels)"
  by (auto simp: drop_columns_def split: if_splits)

lemma merge_row_left_name:
  assumes "''customer_name'' \<in> set lcols" and "''customer_name'' \<in> set rcols"
    and "distinct (map (suffixed rcols ''_1'') lcols @ map (suffixed lcols ''_2'') rcols)"
  shows "merge_row lcols rcols ''_1'' ''_2'' x y ''customer_name_1'' = x ''customer_name''"
proof -
  have s: "suffixed rcols ''_1'' ''customer_name'' = ''customer_name_1''"
    using assms(2) by (simp add: suffixed_def)
  then have "''customer_name_1'' \<in> suffixed rcols ''_1'' ` set lcols"
    using assms(1) by force
  then have "''customer_name_1'' \<notin> suffixed lcols ''_2'' ` set rcols"
    using assms(3) by auto
  then have r: "relabel (suffixed lcols ''_2'') rcols y ''customer_name_1'' = None"
    by (rule relabel_None)
  have "inj_on (suffixed rcols ''_1'') (set lcols)"
    using assms(3) by (simp add: distinct_map)
  from relabel_inj [OF assms(1) this, of x]
  show ?thesis using r by (simp add: merge_row_def map_add_def s)
qed

lemma merge_row_left:
  assumes "c \<in> set lcols"
    and "distinct (map (suffixed rcols sl) lcols @ map (suffixed lcols sr) rcols)"
  shows "merge_row lcols rcols sl sr x y (suffixed rcols sl c) = x c"
proof -
  have "suffixed rcols sl c \<in> suffixed rcols sl ` set lcols"
    using assms(1) by simp
  then have "suffixed rcols sl c \<notin> suffixed lcols sr ` set rcols"
    using assms(2) by auto
  then have r: "relabel (suffixed lcols sr) rcols y (suffixed rcols sl c) = None"
    by (rule relabel_None)
  have "inj_on (suffixed rcols sl) (set lcols)"
    using assms(2) by (simp add: distinct_map)
  from relabel_inj [OF assms(1) this, of x]
  show ?thesis using r by (simp add: merge_row_def map_add_def)
qed

lemma resolve_row:
  assumes r: "resolve sc reference df0 = Inr df"
    and i: "i < length (rows df0)"
    and n1: "(rows df0 ! i) ''customer_name_1'' = Some (Str n)"
    and n2: "(rows df0 ! i) ''customer_name_2'' = Some (Str '' '')"
    and le: "\<forall>q. \<forall>c\<in>set (first_female reference @ first_male reference @ last_names reference).
               sc [] c \<le> sc q c"
    and dd: "distinct (columns df)"
  shows "\<exists>f l rest. str_split CHR '' '' n = f # l # rest
           \<and> (rows df ! i) ''CUSTOMER_NAME'' = Some (Str (f @ '' '' @ l))"
proof -
  let ?firsts = "first_female reference @ first_male reference"
  let ?lasts = "last_names reference"
  obtain df1 s1 s2 l1 l2 nm df7 where
    d1: "drop_columns df0 [''external_name''] = Inr df1"
    and c1: "score_column sc df1 ''customer_name_1'' 0 ?firsts = Inr s1"
    and c2: "score_column sc (assign df1 ''score_1'' s1) ''customer_name_2'' 0 ?firsts = Inr s2"
    and c3: "score_column sc (assign (assign df1 ''score_1'' s1) ''score_2'' s2)
               ''customer_name_1'' 1 ?lasts = Inr l1"
    and c4: "score_column sc (assign (assign (assign df1 ''score_1'' s1) ''score_2'' s2)
               ''score_last_1'' l1) ''customer_name_2'' 1 ?lasts = Inr l2"
    and sel: "traverse select_best_full_name (rows (assign (assign (assign (assign df1
               ''score_1'' s1) ''score_2'' s2) ''score_last_1'' l1) ''score_last_2'' l2)) = Inr nm"
    and d7: "drop_columns (assign (assign (assign (assign (assign df1 ''score_1'' s1)
               ''score_2'' s2) ''score_last_1'' l1) ''score_last_2'' l2) ''customer_name''
               (map Str nm))
               [''customer_name_1'', ''customer_name_2'', ''score_1'',
                ''score_2'', ''score_last_1'', ''score_last_2''] = Inr df7"
    and df: "df = rename_columns str_upper df7"
    using r unfolding resolve_def Let_def bindE_Inr by auto
  let ?df2 = "assign df1 ''score_1'' s1"
  let ?df3 = "assign ?df2 ''score_2'' s2"
  let ?df4 = "assign ?df3 ''score_last_1'' l1"
  let ?df5 = "assign ?df4 ''score_last_2'' l2"
  let ?df6 = "assign ?df5 ''customer_name'' (map Str nm)"
  have len1: "length (rows df1) = length (rows df0)" using d1 by (rule drop_columns_rows)
  have ls1: "length s1 = length (rows df1)" using c1 by (rule score_column_length)
  have len2: "length (rows ?df2) = length (rows df0)" using ls1 len1 by (simp add: rows_assign)
  have ls2: "length s2 = length (rows ?df2)" using c2 by (rule score_column_length)
  have len3: "length (rows ?df3) = length (rows df0)" using ls2 len2 by (simp add: rows_assign)
  have ls3: "length l1 = length (rows ?df3)" using c3 by (rule score_column_length)
  have len4: "length (rows ?df4) = length (rows df0)" using ls3 len3 by (simp add: rows_assign)
  have ls4: "length l2 = length (rows ?df4)" using c4 by (rule score_column_length)
  have len5: "length (rows ?df5) = length (rows df0)" using ls4 len4 by (simp add: rows_assign)
  have lnm: "length (map Str nm) = length (rows ?df5)" using traverse_length [OF sel] by simp
  have len6: "length (rows ?df6) = length (rows df0)" using lnm len5 by (simp add: rows_assign)
  have r1: "rows df1 ! i = (rows df0 ! i) |` (- set [''external_name''])"
    using d1 i by (rule drop_columns_nth)
  have r2: "rows ?df2 ! i = (rows df1 ! i)(''score_1'' \<mapsto> s1 ! i)"
    using ls1 i len1 by (simp add: rows_assign_nth)
  have r3: "rows ?df3 ! i = (rows ?df2 ! i)(''score_2'' \<mapsto> s2 ! i)"
    using ls2 i len2 by (simp add: rows_assign_nth)
  have r4: "rows ?df4 ! i = (rows ?df3 ! i)(''score_last_1'' \<mapsto> l1 ! i)"
    using ls3 i len3 by (simp add: rows_assign_nth)
  have r5: "rows ?df5 ! i = (rows ?df4 ! i)(''score_last_2'' \<mapsto> l2 ! i)"
    using ls4 i len4 by (simp add: rows_assign_nth)
  have r6: "rows ?df6 ! i = (rows ?df5 ! i)(''customer_name'' \<mapsto> Str (nm ! i))"
    using lnm i len5 by (simp add: rows_assign_nth)
  have r7: "rows df7 ! i = (rows ?df6 ! i) |` (- set [''customer_name_1'', ''customer_name_2'',
              ''score_1'', ''score_2'', ''score_last_1'', ''score_last_2''])"
    using d7 i len6 by (simp add: drop_columns_nth)
  have a1: "(rows df1 ! i) ''customer_name_1'' = Some (Str n)"
    and a2: "(rows df1 ! i) ''customer_name_2'' = Some (Str '' '')"
    using n1 n2 by (simp_all add: r1)
  obtain t0 x1 where t0: "item (str_split CHR '' '' n) 0 = Inr t0"
    and g1: "get_best_score sc t0 ?firsts = Inr x1" and v1: "s1 ! i = Num x1"
    using score_column_nth [OF c1 _ a1] i len1 by auto
  have "(rows ?df2 ! i) ''customer_name_2'' = Some (Str '' '')" using a2 by (simp add: r2)
  from score_column_nth [OF c2 _ this]
  obtain x2 where g2: "get_best_score sc [] ?firsts = Inr x2" and v2: "s2 ! i = Num x2"
    using i len2 by (auto simp: item_def)
  have "(rows ?df3 ! i) ''customer_name_1'' = Some (Str n)" using a1 by (simp add: r3 r2)
  from score_column_nth [OF c3 _ this]
  obtain t1 y1 where t1: "item (str_split CHR '' '' n) 1 = Inr t1"
    and g3: "get_best_score sc t1 ?lasts = Inr y1" and v3: "l1 ! i = Num y1"
    using i len3 by auto
  have "(rows ?df4 ! i) ''customer_name_2'' = Some (Str '' '')" using a2 by (simp add: r4 r3 r2)
  from score_column_nth [OF c4 _ this]
  obtain y2 where g4: "get_best_score sc [] ?lasts = Inr y2" and v4: "l2 ! i = Num y2"
    using i len4 by (auto simp: item_def)
  have x: "x2 \<le> x1"
  proof -
    obtain c where c: "c \<in> set ?firsts" "x2 = sc [] c"
      using get_best_score_Inr [OF g2] by blast
    then have "sc [] c \<le> sc t0 c" using le by auto
    moreover have "sc t0 c \<le> x1" using get_best_score_Inr [OF g1] c(1) by blast
    ultimately show ?thesis using c(2) by simp
  qed
  have y: "y2 \<le> y1"
  proof -
    obtain c where c: "c \<in> set ?lasts" "y2 = sc [] c"
      using get_best_score_Inr [OF g4] by blast
    then have "sc [] c \<le> sc t1 c" using le by auto
    moreover have "sc t1 c \<le> y1" using get_best_score_Inr [OF g3] c(1) by blast
    ultimately show ?thesis using c(2) by simp
  qed
  have row5: "(rows ?df5 ! i) ''score_1'' = Some (Num x1)"
    "(rows ?df5 ! i) ''score_2'' = Some (Num x2)"
    "(rows ?df5 ! i) ''score_last_1'' = Some (Num y1)"
    "(rows ?df5 ! i) ''score_last_2'' = Some (Num y2)"
    "(rows ?df5 ! i) ''customer_name_1'' = Some (Str n)"
    "(rows ?df5 ! i) ''customer_name_2'' = Some (Str '' '')"
    using a1 a2 v1 v2 v3 v4 by (simp_all add: r5 r4 r3 r2)
  have hd0: "hd (str_split CHR '' '' n) = t0"
    using t0 by (simp add: item_0_split)
  have "select_best_full_name (rows ?df5 ! i) = Inr (t0 @ '' '' @ t1)"
    unfolding select_best_full_name_eq [OF row5] using x y t1 hd0 by (simp add: bindE_def)
  moreover have "select_best_full_name (rows ?df5 ! i) = Inr (nm ! i)"
    using traverse_nth [OF sel] i len5 by simp
  ultimately have nm: "nm ! i = t0 @ '' '' @ t1" by simp
  have row7: "(rows df7 ! i) ''customer_name'' = Some (Str (t0 @ '' '' @ t1))"
    by (simp add: r7 r6 nm)
  have cols7: "''customer_name'' \<in> set (columns df7)"
    using drop_columns_columns [OF d7] by (simp add: columns_assign)
  have "distinct (map str_upper (columns df7))" using dd by (simp add: df columns_rename)
  then have inj: "inj_on str_upper (set (columns df7))" by (simp add: distinct_map)
  have up: "str_upper ''customer_name'' = ''CUSTOMER_NAME''"
    by (simp add: str_upper_def upper_char_def)
  have "i < length (rows df7)" using drop_columns_rows [OF d7] len6 i by simp
  then have "(rows df ! i) ''CUSTOMER_NAME'' = relabel str_upper (columns df7) (rows df7 ! i) (str_upper ''customer_name'')"
    by (simp add: df rename_columns_def up)
  also have "\<dots> = (rows df7 ! i) ''customer_name''"
    using cols7 inj by (rule relabel_inj)
  finally have final: "(rows df ! i) ''CUSTOMER_NAME'' = Some (Str (t0 @ '' '' @ t1))"
    using row7 by simp
  have "\<exists>rest. str_split CHR '' '' n = t0 # t1 # rest"
  proof (cases "str_split CHR '' '' n")
    case Nil
    then show ?thesis using t0 by (simp add: item_def)
  next
    case (Cons a as)
    then show ?thesis using t0 t1 by (cases as) (auto simp: item_def split: if_splits)
  qed
  then show ?thesis using final by blast
qed

lemma resolve_passthrough:
  assumes r: "resolve sc reference df0 = Inr df"
    and i: "i < length (rows df0)"
    and c: "c \<in> set (columns df0)"
    and other: "c \<notin> set [''external_name'', ''customer_name_1'', ''customer_name_2'',
                  ''score_1'', ''score_2'', ''score_last_1'', ''score_last_2'', ''customer_name'']"
    and dd: "distinct (columns df)"
  shows "(rows df ! i) (str_upper c) = (rows df0 ! i) c"
proof -
  let ?firsts = "first_female reference @ first_male reference"
  let ?lasts = "last_names reference"
  obtain df1 s1 s2 l1 l2 nm df7 where
    d1: "drop_columns df0 [''external_name''] = Inr df1"
    and c1: "score_column sc df1 ''customer_name_1'' 0 ?firsts = Inr s1"
    and c2: "score_column sc (assign df1 ''score_1'' s1) ''customer_name_2'' 0 ?firsts = Inr s2"
    and c3: "score_column sc (assign (assign df1 ''score_1'' s1) ''score_2'' s2)
               ''customer_name_1'' 1 ?lasts = Inr l1"
    and c4: "score_column sc (assign (assign (assign df1 ''score_1'' s1) ''score_2'' s2)
               ''score_last_1'' l1) ''customer_name_2'' 1 ?lasts = Inr l2"
    and sel: "traverse select_best_full_name (rows (assign (assign (assign (assign df1
               ''score_1'' s1) ''score_2'' s2) ''score_last_1'' l1) ''score_last_2'' l2)) = Inr nm"
    and d7: "drop_columns (assign (assign (assign (assign (assign df1 ''score_1'' s1)
               ''score_2'' s2) ''score_last_1'' l1) ''score_last_2'' l2) ''customer_name''
               (map Str nm))
               [''customer_name_1'', ''customer_name_2'', ''score_1'',
                ''score_2'', ''score_last_1'', ''score_last_2''] = Inr df7"
    and df: "df = rename_columns str_upper df7"
    using r unfolding resolve_def Let_def bindE_Inr by auto
  let ?df2 = "assign df1 ''score_1'' s1"
  let ?df3 = "assign ?df2 ''score_2'' s2"
  let ?df4 = "assign ?df3 ''score_last_1'' l1"
  let ?df5 = "assign ?df4 ''score_last_2'' l2"
  let ?df6 = "assign ?df5 ''customer_name'' (map Str nm)"
  have len1: "length (rows df1) = length (rows df0)" using d1 by (rule drop_columns_rows)
  have ls1: "length s1 = length (rows df1)" using c1 by (rule score_column_length)
  have len2: "length (rows ?df2) = length (rows df0)" using ls1 len1 by (simp add: rows_assign)
  have ls2: "length s2 = length (rows ?df2)" using c2 by (rule score_column_length)
  have len3: "length (rows ?df3) = length (rows df0)" using ls2 len2 by (simp add: rows_assign)
  have ls3: "length l1 = length (rows ?df3)" using c3 by (rule score_column_length)
  have len4: "length (rows ?df4) = length (rows df0)" using ls3 len3 by (simp add: rows_assign)
  have ls4: "length l2 = length (rows ?df4)" using c4 by (rule score_column_length)
  have len5: "length (rows ?df5) = length (rows df0)" using ls4 len4 by (simp add: rows_assign)
  have lnm: "length (map Str nm) = length (rows ?df5)" using traverse_length [OF sel] by simp
  have len6: "length (rows ?df6) = length (rows df0)" using lnm len5 by (simp add: rows_assign)
  have r1: "rows df1 ! i = (rows df0 ! i) |` (- set [''external_name''])"
    using d1 i by (rule drop_columns_nth)
  have r2: "rows ?df2 ! i = (rows df1 ! i)(''score_1'' \<mapsto> s1 ! i)"
    using ls1 i len1 by (simp add: rows_assign_nth)
  have r3: "rows ?df3 ! i = (rows ?df2 ! i)(''score_2'' \<mapsto> s2 ! i)"
    using ls2 i len2 by (simp add: rows_assign_nth)
  have r4: "rows ?df4 ! i = (rows ?df3 ! i)(''score_last_1'' \<mapsto> l1 ! i)"
    using ls3 i len3 by (simp add: rows_assign_nth)
  have r5: "rows ?df5 ! i = (rows ?df4 ! i)(''score_last_2'' \<mapsto> l2 ! i)"
    using ls4 i len4 by (simp add: rows_assign_nth)
  have r6: "rows ?df6 ! i = (rows ?df5 ! i)(''customer_name'' \<mapsto> Str (nm ! i))"
    using lnm i len5 by (simp add: rows_assign_nth)
  have r7: "rows df7 ! i = (rows ?df6 ! i) |` (- set [''customer_name_1'', ''customer_name_2'',
              ''score_1'', ''score_2'', ''score_last_1'', ''score_last_2''])"
    using d7 i len6 by (simp add: drop_columns_nth)
  have row7: "(rows df7 ! i) c = (rows df0 ! i) c"
    using other by (simp add: r7 r6 r5 r4 r3 r2 r1)
  have "c \<in> set (columns df1)"
    using drop_columns_columns [OF d1] c other by simp
  then have cols7: "c \<in> set (columns df7)"
    using drop_columns_columns [OF d7] other by (simp add: columns_assign)
  have "distinct (map str_upper (columns df7))" using dd by (simp add: df columns_rename)
  then have inj: "inj_on str_upper (set (columns df7))" by (simp add: distinct_map)
  have "i < length (rows df7)" using drop_columns_rows [OF d7] len6 i by simp
  then have "(rows df ! i) (str_upper c) = relabel str_upper (columns df7) (rows df7 ! i) (str_upper c)"
    by (simp add: df rename_columns_def)
  also have "\<dots> = (rows df7 ! i) c"
    using cols7 inj by (rule relabel_inj)
  finally show ?thesis using row7 by simp
qed

text \<open>
  Claim C10. Take a row of the merged frame whose \<^verbatim>\<open>external_name\<close> is missing (its
  transaction matched no customer), a scorer under which the empty token never scores
  higher than another token against the same reference name, and unambiguous column
  labels. The row belongs to one transaction: it carries that transaction's cells, its
  \<^verbatim>\<open>customer_name_1\<close> is that transaction's own \<^verbatim>\<open>customer_name\<close>, and the row
  of the table that \<open>main\<close> returns at the same position carries the transaction's
  other cells (a missing one filled with " ") under their upper-case labels. The
  \<^verbatim>\<open>CUSTOMER_NAME\<close> of that row is the first token of this own name, a space and
  its second token.
\<close>

theorem unmatched_keeps_own_name:
  assumes j: "merge_step sc transactions customers = Inr j"
    and df: "main sc reference transactions customers = Inr df"
    and i: "i < length (rows j)"
    and un: "(rows j ! i) ''external_name'' = Some NaN"
    and le: "\<forall>q. \<forall>c\<in>set (first_female reference @ first_male reference @ last_names reference).
               sc [] c \<le> sc q c"
    and dj: "distinct (columns j)"
    and dd: "distinct (columns df)"
  shows "\<exists>k<length (rows transactions). \<exists>n f l rest.
           (\<forall>c\<in>set (columns transactions). c \<noteq> ''external_name'' \<longrightarrow>
              (rows j ! i) (suffixed (columns customers) ''_1'' c) = (rows transactions ! k) c)
         \<and> (\<forall>c\<in>set (columns transactions).
              c \<noteq> ''external_name''
              \<and> suffixed (columns customers) ''_1'' c \<notin> set [''customer_name_1'',
                  ''customer_name_2'', ''score_1'', ''score_2'', ''score_last_1'',
                  ''score_last_2'', ''customer_name''] \<longrightarrow>
              (rows df ! i) (str_upper (suffixed (columns customers) ''_1'' c))
                = map_option (\<lambda>v. if v = NaN then Str '' '' else v) ((rows transactions ! k) c))
         \<and> (rows transactions ! k) ''customer_name'' = Some (Str n)
         \<and> (rows j ! i) ''customer_name_1'' = Some (Str n)
         \<and> str_split CHR '' '' n = f # l # rest
         \<and> (rows df ! i) ''CUSTOMER_NAME'' = Some (Str (f @ '' '' @ l))"
proof -
  have r: "resolve sc reference (fillna j (Str '' '')) = Inr df"
    using df j by (simp add: main_def merged_df_def bindE_def)
  obtain external k where len: "length external = length (rows transactions)"
    and k: "k < length (rows transactions)"
    and cols: "columns j = map (suffixed (columns customers) ''_1'')
                   (columns (assign transactions ''external_name'' external))
                 @ map (suffixed (columns (assign transactions ''external_name'' external)) ''_2'')
                   (columns customers)"
    and row: "rows j ! i =
       merge_row (columns (assign transactions ''external_name'' external)) (columns customers)
         ''_1'' ''_2'' ((rows transactions ! k)(''external_name'' \<mapsto> external ! k))
         (missing_row (columns customers))"
    using j i un by (rule merge_step_unmatched_row)
  let ?lcols = "columns (assign transactions ''external_name'' external)"
  let ?t = "rows transactions ! k"
  let ?m = "fillna j (Str '' '')"
  have i': "i < length (rows ?m)" using i by (simp add: rows_fillna_length)
  have left: "(rows j ! i) (suffixed (columns customers) ''_1'' c) = ?t c"
    if "c \<in> set (columns transactions)" "c \<noteq> ''external_name''" for c
  proof -
    have "c \<in> set ?lcols" using that(1) by (simp add: columns_assign)
    from merge_row_left [OF this dj [unfolded cols]] show ?thesis
      unfolding row using that(2) by simp
  qed
  have through: "(rows df ! i) (str_upper (suffixed (columns customers) ''_1'' c))
                = map_option (\<lambda>v. if v = NaN then Str '' '' else v) (?t c)"
    if "c \<in> set (columns transactions)" "c \<noteq> ''external_name''"
      "suffixed (columns customers) ''_1'' c \<notin> set [''customer_name_1'',
                  ''customer_name_2'', ''score_1'', ''score_2'', ''score_last_1'',
                  ''score_last_2'', ''customer_name'']" for c
  proof -
    let ?c = "suffixed (columns customers) ''_1'' c"
    have "c \<in> set ?lcols" using that(1) by (simp add: columns_assign)
    then have in0: "?c \<in> set (columns ?m)" by (simp add: columns_fillna cols)
    have "?c \<noteq> ''external_name''"
      using that(2) by (auto simp: suffixed_def suffix_1_neq)
    then have "?c \<notin> set [''external_name'', ''customer_name_1'', ''customer_name_2'',
                  ''score_1'', ''score_2'', ''score_last_1'', ''score_last_2'', ''customer_name'']"
      using that(3) by simp
    from resolve_passthrough [OF r i' in0 this dd]
    show ?thesis using left [OF that(1,2)] i by (simp add: rows_fillna_nth)
  qed
  obtain customers_names names ext' where
    cn: "column customers ''customer_name'' = Inr customers_names"
    and n: "column transactions ''customer_name'' = Inr names"
    and t: "traverse (\<lambda>name.
              bindE (as_name name) (\<lambda>n.
              bindE (traverse as_name customers_names) (\<lambda>choices.
              bindE (extract_best sc n choices 75) (\<lambda>best. Inr (cell_of best)))))
            names = Inr ext'"
    using j by (rule merge_step_Inr)
  have kn: "k < length names" using column_Inr(2) [OF n] k by simp
  obtain nm where "as_name (names ! k) = Inr nm"
    using traverse_nth [OF t kn] unfolding bindE_Inr by blast
  then have "names ! k = Str nm" by (cases "names ! k") auto
  then have tn: "?t ''customer_name'' = Some (Str nm)"
    using column_Inr(3) [OF n k] by simp
  have inl: "''customer_name'' \<in> set ?lcols"
    using column_Inr(1) [OF n] by (simp add: columns_assign)
  have inr: "''customer_name'' \<in> set (columns customers)"
    using column_Inr(1) [OF cn] .
  have n1: "(rows j ! i) ''customer_name_1'' = Some (Str nm)"
    unfolding row using merge_row_left_name [OF inl inr dj [unfolded cols]] tn by simp
  have "suffixed ?lcols ''_2'' ''customer_name'' = ''customer_name_2''"
    using inl by (simp add: suffixed_def)
  then have n2: "(rows j ! i) ''customer_name_2'' = Some NaN"
    unfolding row using merge_row_missing [OF inr, of ?lcols "''_1''" "''_2''"] by simp
  have m1: "(rows ?m ! i) ''customer_name_1'' = Some (Str nm)"
    and m2: "(rows ?m ! i) ''customer_name_2'' = Some (Str '' '')"
    using n1 n2 i by (simp_all add: rows_fillna_nth)
  obtain f l rest where "str_split CHR '' '' nm = f # l # rest"
    and "(rows df ! i) ''CUSTOMER_NAME'' = Some (Str (f @ '' '' @ l))"
    using resolve_row [OF r i' m1 m2 le dd] by blast
  then show ?thesis using k left through tn n1 by blast
qed

theorem unmatched_keeps_own_name_witness:
  "\<exists>j df. merge_step (\<lambda>q c. if q = [] then 0 else if q = c then 100 else 20)
     \<lparr>columns = [''transaction_id'', ''amount'', ''transaction_date'', ''customer_name''],
      rows = [[''transaction_id'' \<mapsto> Num 1, ''amount'' \<mapsto> Num 10,
               ''transaction_date'' \<mapsto> Str ''2024-01-01'',
               ''customer_name'' \<mapsto> Str ''Alice Smith''],
              [''transaction_id'' \<mapsto> Num 2, ''amount'' \<mapsto> Num 25,
               ''transaction_date'' \<mapsto> Str ''2024-01-02'',
               ''customer_name'' \<mapsto> Str ''Zyx Qwerty'']]\<rparr>
     \<lparr>columns = [''customer_id'', ''email'', ''customer_name''],
      rows = [[''customer_id'' \<mapsto> Num 7, ''email'' \<mapsto> Str ''as@x.org'',
               ''customer_name'' \<mapsto> Str ''Alice Smith'']]\<rparr> = Inr j
   \<and> main (\<lambda>q c. if q = [] then 0 else if q = c then 100 else 20)
     \<lparr>first_female = [''MARY''], first_male = [''JOHN''], last_names = [''DOE'']\<rparr>
     \<lparr>columns = [''transaction_id'', ''amount'', ''transaction_date'', ''customer_name''],
      rows = [[''transaction_id'' \<mapsto> Num 1, ''amount'' \<mapsto> Num 10,
               ''transaction_date'' \<mapsto> Str ''2024-01-01'',
               ''customer_name'' \<mapsto> Str ''Alice Smith''],
              [''transaction_id'' \<mapsto> Num 2, ''amount'' \<mapsto> Num 25,
               ''transaction_date'' \<mapsto> Str ''2024-01-02'',
               ''customer_name'' \<mapsto> Str ''Zyx Qwerty'']]\<rparr>
     \<lparr>columns = [''customer_id'', ''email'', ''customer_name''],
      rows = [[''customer_id'' \<mapsto> Num 7, ''email'' \<mapsto> Str ''as@x.org'',
               ''customer_name'' \<mapsto> Str ''Alice Smith'']]\<rparr> = Inr df
   \<and> (rows j ! 1) ''transaction_id'' = Some (Num 2)
   \<and> (rows df ! 1) ''TRANSACTION_ID'' = Some (Num 2)
   \<and> (rows df ! 1) ''CUSTOMER_NAME'' = Some (Str ''Zyx Qwerty'')"
proof -
  define sc :: scorer where "sc = (\<lambda>q c. if q = [] then 0 else if q = c then 100 else 20)"
  define R where
    "R = \<lparr>first_female = [''MARY''], first_male = [''JOHN''], last_names = [''DOE'']\<rparr>"
  define T where
    "T = \<lparr>columns = [''transaction_id'', ''amount'', ''transaction_date'', ''customer_name''],
      rows = [[''transaction_id'' \<mapsto> Num 1, ''amount'' \<mapsto> Num 10,
               ''transaction_date'' \<mapsto> Str ''2024-01-01'',
               ''customer_name'' \<mapsto> Str ''Alice Smith''],
              [''transaction_id'' \<mapsto> Num 2, ''amount'' \<mapsto> Num 25,
               ''transaction_date'' \<mapsto> Str ''2024-01-02'',
               ''customer_name'' \<mapsto> Str ''Zyx Qwerty'']]\<rparr>"
  define C where
    "C = \<lparr>columns = [''customer_id'', ''email'', ''customer_name''],
      rows = [[''customer_id'' \<mapsto> Num 7, ''email'' \<mapsto> Str ''as@x.org'',
               ''customer_name'' \<mapsto> Str ''Alice Smith'']]\<rparr>"
  have "bindE (merge_step sc T C)
          (\<lambda>j. Inr (length (rows j), (rows j ! 1) ''external_name'',
                      (rows j ! 1) ''transaction_id'', columns j)) =
        Inr (2, Some NaN, Some (Num 2), [''transaction_id'', ''amount'', ''transaction_date'',
          ''customer_name_1'', ''external_name'', ''customer_id'', ''email'', ''customer_name_2''])"
    unfolding sc_def T_def C_def by code_simp
  then obtain j where j: "merge_step sc T C = Inr j"
    and l2: "length (rows j) = 2" and e: "(rows j ! 1) ''external_name'' = Some NaN"
    and tid: "(rows j ! 1) ''transaction_id'' = Some (Num 2)"
    and cj: "columns j = [''transaction_id'', ''amount'', ''transaction_date'',
          ''customer_name_1'', ''external_name'', ''customer_id'', ''email'', ''customer_name_2'']"
    by (cases "merge_step sc T C") (auto simp: bindE_def)
  have l: "1 < length (rows j)" using l2 by simp
  have dj: "distinct (columns j)" unfolding cj by simp
  have "bindE (main sc R T C) (\<lambda>df. Inr (columns df)) =
        Inr [''TRANSACTION_ID'', ''AMOUNT'', ''TRANSACTION_DATE'', ''CUSTOMER_ID'', ''EMAIL'',
             ''CUSTOMER_NAME'']"
    unfolding sc_def R_def T_def C_def by code_simp
  then obtain df where df: "main sc R T C = Inr df"
    and cd: "columns df = [''TRANSACTION_ID'', ''AMOUNT'', ''TRANSACTION_DATE'', ''CUSTOMER_ID'',
             ''EMAIL'', ''CUSTOMER_NAME'']"
    by (cases "main sc R T C") (auto simp: bindE_def)
  have dd: "distinct (columns df)" unfolding cd by simp
  have le: "\<forall>q. \<forall>c\<in>set (first_female R @ first_male R @ last_names R). sc [] c \<le> sc q c"
    by (simp add: sc_def)
  from unmatched_keeps_own_name [OF j df l e le dj dd]
  obtain k n f la rest where k: "k < length (rows T)"
    and a: "\<forall>c\<in>set (columns T). c \<noteq> ''external_name'' \<longrightarrow>
              (rows j ! 1) (suffixed (columns C) ''_1'' c) = (rows T ! k) c"
    and b: "\<forall>c\<in>set (columns T).
              c \<noteq> ''external_name''
              \<and> suffixed (columns C) ''_1'' c \<notin> set [''customer_name_1'',
                  ''customer_name_2'', ''score_1'', ''score_2'', ''score_last_1'',
                  ''score_last_2'', ''customer_name''] \<longrightarrow>
              (rows df ! 1) (str_upper (suffixed (columns C) ''_1'' c))
                = map_option (\<lambda>v. if v = NaN then Str '' '' else v) ((rows T ! k) c)"
    and tn: "(rows T ! k) ''customer_name'' = Some (Str n)"
    and sp: "str_split CHR '' '' n = f # la # rest"
    and fin: "(rows df ! 1) ''CUSTOMER_NAME'' = Some (Str (f @ '' '' @ la))"
    by (elim exE conjE) (rule that; assumption)
  have a': "(rows j ! 1) (suffixed (columns C) ''_1'' ''transaction_id'')
              = (rows T ! k) ''transaction_id''"
    using a by (simp add: T_def)
  have "(rows T ! k) ''transaction_id'' = Some (Num 2)"
    using a' tid by (simp add: suffixed_def C_def)
  moreover have "k = 0 \<or> k = 1" using k by (auto simp: T_def)
  ultimately have k1: "k = 1" by (auto simp: T_def)
  have "n = ''Zyx Qwerty''" using tn k1 by (simp add: T_def)
  then have name: "(rows df ! 1) ''CUSTOMER_NAME'' = Some (Str ''Zyx Qwerty'')"
    using sp fin by auto
  have "''transaction_id'' \<in> set (columns T)" by (simp add: T_def)
  with b have "''transaction_id'' \<noteq> ''external_name''
              \<and> suffixed (columns C) ''_1'' ''transaction_id'' \<notin> set [''customer_name_1'',
                  ''customer_name_2'', ''score_1'', ''score_2'', ''score_last_1'',
                  ''score_last_2'', ''customer_name''] \<longrightarrow>
              (rows df ! 1) (str_upper (suffixed (columns C) ''_1'' ''transaction_id''))
                = map_option (\<lambda>v. if v = NaN then Str '' '' else v)
                    ((rows T ! k) ''transaction_id'')"
    by (rule bspec)
  then have "(rows df ! 1) ''TRANSACTION_ID'' = Some (Num 2)"
    using k1 by (simp add: suffixed_def str_upper_def upper_char_def T_def C_def)
  with j df tid name show ?thesis
    unfolding sc_def R_def T_def C_def by blast
qed

end
